theory Spec2Isabelle
  imports Complex_Main "HOL-Library.Word" "HOL-Library.Log_Nat"
begin

unbundle bit_operations_syntax

section \<open>ifstat: data model\<close>

text \<open>
  The program samples the cumulative byte counters of one network interface and writes
  one CSV row per sample. The kernel's counters \<open>ifi_ibytes\<close> and \<open>ifi_obytes\<close> are
  \<open>u_long\<close> fields of \<open>struct if_data\<close> (64 bits on the 64-bit FreeBSD targets); the
  program keeps its own values \<open>cur_inb\<close>, \<open>cur_outb\<close>, \<open>old_inb\<close>, \<open>old_outb\<close> in
  \<open>uint32_t\<close> variables.
\<close>

type_synonym u_long = "64 word"
type_synonym uint32_t = "32 word"

record ifmibdata =
  ifmd_name :: string
  ifi_ibytes :: u_long
  ifi_obytes :: u_long

subsection \<open>Counter deltas (lines 202, 203, 210, 211)\<close>

text \<open>
  \<open>cur_inb = data->ifmd_data.ifi_ibytes - old_inb;\<close> The \<open>uint32_t\<close> operand is
  promoted to the counter's width, the subtraction wraps at that width, and the
  assignment keeps the low 32 bits.
\<close>

definition throughput :: "u_long \<Rightarrow> uint32_t \<Rightarrow> uint32_t" where
  "throughput bytes old = ucast (bytes - ucast old)"

text \<open>\<open>old_inb = data->ifmd_data.ifi_ibytes;\<close> keeps the low 32 bits of the counter.\<close>

definition backup :: "u_long \<Rightarrow> uint32_t" where
  "backup bytes = ucast bytes"

subsection \<open>Undefined behaviour\<close>

text \<open>
  Places where the C standard leaves the behaviour of the program undefined are branches
  of the model: the operation returns the fault instead of a value.
\<close>

datatype fault =
    SignedOverflow         \<comment> \<open>a signed integer operation left the range of its type\<close>
  | NonFiniteQuotient      \<comment> \<open>the double divisor was 0.0: the quotient is infinite or NaN\<close>
  | OutOfRangeConversion   \<comment> \<open>a double outside the range of \<open>uint32_t\<close> was converted to it\<close>
  | NullTime               \<comment> \<open>\<open>localtime\<close> returned \<open>NULL\<close>, which \<open>strftime\<close> dereferences\<close>
  | IndeterminateBuffer    \<comment> \<open>\<open>strftime\<close> did not fit its buffer and left it indeterminate\<close>

subsection \<open>Time values and \<open>timersub\<close> (line 199)\<close>

text \<open>
  \<open>struct timeval\<close> has the fields \<open>tv_sec\<close> (\<open>time_t\<close>) and \<open>tv_usec\<close>
  (\<open>suseconds_t\<close>), both signed 64-bit integers on the 64-bit targets. The fields are
  modelled as integers; \<open>in_long\<close> is the range of the C type.
\<close>

record timeval =
  tv_sec :: int
  tv_usec :: int

definition in_long :: "int \<Rightarrow> bool" where
  "in_long x = (- (2 ^ 63) \<le> x \<and> x < 2 ^ 63)"

text \<open>
  The macro, as \<^verbatim>\<open>sys/time.h\<close> defines it:
  \<^verbatim>\<open>
  #define timersub(tvp, uvp, vvp) do {
      (vvp)->tv_sec = (tvp)->tv_sec - (uvp)->tv_sec;
      (vvp)->tv_usec = (tvp)->tv_usec - (uvp)->tv_usec;
      if ((vvp)->tv_usec < 0) { (vvp)->tv_sec--; (vvp)->tv_usec += 1000000; }
  } while (0)
  \<close>
\<close>

definition timersub :: "timeval \<Rightarrow> timeval \<Rightarrow> fault + timeval" where
  "timersub tvp uvp =
     (let s = tv_sec tvp - tv_sec uvp; u = tv_usec tvp - tv_usec uvp
      in if in_long s \<and> in_long u
         then (if u < 0
               then (if in_long (s - 1)
                     then Inr \<lparr>tv_sec = s - 1, tv_usec = u + 1000000\<rparr>
                     else Inl SignedOverflow)
               else Inr \<lparr>tv_sec = s, tv_usec = u\<rparr>)
         else Inl SignedOverflow)"

subsection \<open>Double precision arithmetic\<close>

text \<open>
  The rate is computed in \<open>double\<close> (IEEE 754 binary64, round to nearest, ties to even,
  each operation rounded once, as on the SSE2 targets). A finite double is modelled by
  the rational number it denotes, and \<open>binary64\<close> rounds a rational to the nearest
  double: 53 significant bits, least exponent -1074 (so that subnormal results are
  rounded on their own grid). Numbers of magnitude 2^1024 or more, which a double
  rounds to infinity, stay finite here; the only place where the program can produce
  one is the quotient, and there every value from 2^32 on is a fault already.
\<close>

definition ilog2 :: "rat \<Rightarrow> int" where
  \<comment> \<open>the integer part of the binary logarithm of a positive rational\<close>
  "ilog2 x = (if 1 \<le> x then bitlen \<lfloor>x\<rfloor> - 1 else - bitlen (\<lceil>1 / x\<rceil> - 1))"

definition round_even :: "rat \<Rightarrow> int" where
  "round_even m =
     (let f = \<lfloor>m\<rfloor>; r = m - of_int f
      in if r < 1 / 2 then f else if 1 / 2 < r then f + 1 else if even f then f else f + 1)"

definition binary64 :: "rat \<Rightarrow> rat" where
  "binary64 x =
     (if x = 0 then 0
      else let e = max (ilog2 \<bar>x\<bar> - 52) (- 1074)
           in of_int (round_even (x / 2 powi e)) * 2 powi e)"

text \<open>
  \<open>tv.tv_sec + (tv.tv_usec * 1e-6)\<close> (lines 206 and 207): both fields are converted to
  double, the literal \<open>1e-6\<close> is the double nearest to 10^-6, and the product and the
  sum are rounded.
\<close>

definition seconds :: "timeval \<Rightarrow> rat" where
  "seconds tv =
     binary64 (binary64 (of_int (tv_sec tv))
               + binary64 (binary64 (of_int (tv_usec tv)) * binary64 (1 / 10 ^ 6)))"

text \<open>Conversion of a double to an integer type discards the fractional part.\<close>

definition truncate :: "rat \<Rightarrow> int" where
  "truncate q = (if 0 \<le> q then \<lfloor>q\<rfloor> else \<lceil>q\<rceil>)"

text \<open>
  \<open>cur_inb /= tv.tv_sec + (tv.tv_usec * 1e-6);\<close> The left operand is converted to
  double, the division is done in double, and the quotient is converted back to
  \<open>uint32_t\<close>. Nothing guards the divisor. The conversion is defined only when the
  truncated quotient is in the range of \<open>uint32_t\<close>, that is for quotients strictly
  between -1 and 2^32.
\<close>

definition normalize :: "uint32_t \<Rightarrow> timeval \<Rightarrow> fault + uint32_t" where
  "normalize cur tv =
     (let d = seconds tv
      in if d = 0 then Inl NonFiniteQuotient
         else let q = binary64 (of_int (uint cur) / d)
              in if - 1 < q \<and> q < 2 ^ 32 then Inr (word_of_int (truncate q))
                 else Inl OutOfRangeConversion)"

subsection \<open>Text produced by \<open>printf\<close> and \<open>strftime\<close>\<close>

definition digit_char :: "nat \<Rightarrow> char" where
  "digit_char d = char_of (48 + d)"

fun digits :: "nat \<Rightarrow> string" where
  "digits n = (if n < 10 then [digit_char n] else digits (n div 10) @ [digit_char (n mod 10)])"

declare digits.simps [simp del]

text \<open>The conversion \<open>%i\<close>: a signed decimal number.\<close>

definition show_int :: "int \<Rightarrow> string" where
  "show_int i = (if i < 0 then CHR ''-'' # digits (nat (- i)) else digits (nat i))"

text \<open>The conversion \<open>%02d\<close> that \<open>strftime\<close> applies for \<open>%m %d %H %M %S\<close>.\<close>

definition pad2 :: "int \<Rightarrow> string" where
  "pad2 n = (if 0 \<le> n \<and> n < 10 then CHR ''0'' # show_int n else show_int n)"

text \<open>The fields of \<open>struct tm\<close> that the format reads.\<close>

record tm =
  tm_sec :: int
  tm_min :: int
  tm_hour :: int
  tm_mday :: int
  tm_mon :: int
  tm_year :: int

text \<open>
  \<open>strftime(t, sizeof(t), "%Y.%m.%d %H:%M:%S", time)\<close> with \<open>char t[64]\<close> (lines 215
  to 217). When the text and its terminator do not fit the 64 bytes, \<open>strftime\<close>
  returns 0 and the contents of the buffer are indeterminate; the program does not look
  at the return value.
\<close>

definition strftime :: "tm \<Rightarrow> fault + string" where
  "strftime time =
     (let t = show_int (tm_year time + 1900) @ ''.'' @ pad2 (tm_mon time + 1) @ ''.''
              @ pad2 (tm_mday time) @ '' '' @ pad2 (tm_hour time) @ '':''
              @ pad2 (tm_min time) @ '':'' @ pad2 (tm_sec time)
      in if length t < 64 then Inr t else Inl IndeterminateBuffer)"

text \<open>
  \<open>snprintf(s, sizeof(s), "%s,%i,%i\n", t, cur_inb, cur_outb)\<close> with \<open>char s[128]\<close>
  (lines 219 and 220). The \<open>uint32_t\<close> arguments are read by \<open>%i\<close> as \<open>int\<close>, so
  a value from 2^31 on is printed as the negative number with the same bits.
\<close>

definition newline :: char where
  "newline = CHR 0x0A"

definition csv_line :: "string \<Rightarrow> uint32_t \<Rightarrow> uint32_t \<Rightarrow> string" where
  "csv_line t cur_inb cur_outb =
     take 127 (t @ '','' @ show_int (sint cur_inb) @ '','' @ show_int (sint cur_outb) @ [newline])"

definition header :: string where
  "header = ''date,input in bytes per second,output in bytes per second'' @ [newline]"

subsection \<open>The process and its environment\<close>

text \<open>
  What the operating system answers is collected in \<open>os\<close>; what the process has done
  to the outside is collected in \<open>world\<close>. The fields \<open>sysctls\<close>, \<open>sleeps\<close> and
  \<open>cycles\<close> are a log for the properties below, not variables of the program:
  the number of \<open>sysctl\<close> calls made, the argument of every \<open>usleep\<close> call, and the
  number of completed passes through the body of the loop.

  The program has one output stream, \<open>csv\<close>. A stream on a file is buffered:
  \<open>fwrite\<close> hands bytes to \<open>stdio\<close>, which writes them to the file when it sees fit
  and at the latest when the stream is flushed or closed. \<open>stream\<close> is the path of the
  file the stream is open on, and \<open>pending\<close> the bytes handed over and not yet written.
  How many bytes \<open>stdio\<close> writes out during a call of \<open>fwrite\<close> is an answer of the
  environment, like the result of a system call.
\<close>

record os =
  ifcount :: "uint32_t option"        \<comment> \<open>answer to the \<open>IFMIB_IFCOUNT\<close> query, \<open>None\<close>: it fails\<close>
  ifrow :: "int \<Rightarrow> ifmibdata option"  \<comment> \<open>answer to the \<open>IFDATA_GENERAL\<close> query for a row at start\<close>
  malloc_row :: bool                  \<comment> \<open>\<open>malloc\<close> at line 113 succeeds\<close>
  malloc_main :: bool                 \<comment> \<open>\<open>malloc\<close> at line 187 succeeds\<close>
  writable :: "string \<Rightarrow> bool"        \<comment> \<open>\<open>fopen(path, "w")\<close> succeeds\<close>
  strerror :: string                  \<comment> \<open>the text \<open>perror\<close> prints for \<open>errno\<close>\<close>
  stack_tv :: timeval                 \<comment> \<open>what the uninitialised \<open>old_tv\<close> holds at line 192\<close>
  header_out :: nat                   \<comment> \<open>bytes \<open>stdio\<close> writes out during \<open>fwrite\<close> at line 184\<close>

record world =
  files :: "string \<rightharpoonup> string"
  stream :: "string option"
  pending :: string
  errout :: string
  sysctls :: nat
  sleeps :: "uint32_t list"
  cycles :: nat

datatype status = Running | Exited int | Undefined fault

type_synonym 'a res = "(status \<times> world) + ('a \<times> world)"

text \<open>\<open>stdio\<close> writes the first \<open>n\<close> pending bytes to the file.\<close>

definition transmit :: "nat \<Rightarrow> world \<Rightarrow> world" where
  "transmit n w =
     (case stream w of
        None \<Rightarrow> w
      | Some path \<Rightarrow>
          w\<lparr>files := (files w)(path \<mapsto> (case files w path of None \<Rightarrow> [] | Some c \<Rightarrow> c)
                                          @ take n (pending w)),
            pending := drop n (pending w)\<rparr>)"

text \<open>\<open>fflush(csv)\<close> writes out all that is pending; \<open>fclose(csv)\<close> flushes and closes.\<close>

definition fflush :: "world \<Rightarrow> world" where
  "fflush w = transmit (length (pending w)) w"

definition fclose :: "world \<Rightarrow> world" where
  "fclose w = (fflush w)\<lparr>stream := None\<rparr>"

text \<open>\<open>exit\<close> and the return from \<open>main\<close> flush and close the streams that are open.\<close>

definition exit_with :: "int \<Rightarrow> world \<Rightarrow> status \<times> world" where
  "exit_with code w = (Exited code, fclose w)"

definition fprintf_stderr :: "string \<Rightarrow> world \<Rightarrow> world" where
  "fprintf_stderr text w = w\<lparr>errout := errout w @ text\<rparr>"

text \<open>Lines 49 to 62.\<close>

definition error :: "os \<Rightarrow> string \<Rightarrow> int \<Rightarrow> string \<Rightarrow> bool \<Rightarrow> world \<Rightarrow> status \<times> world" where
  "error os func line msg hasmsg w =
     (let errormsg = take 63 (func @ '', line '' @ show_int line)
      in exit_with 1
           (if hasmsg then fprintf_stderr (errormsg @ '': '' @ msg @ [newline]) w
            else fprintf_stderr (errormsg @ '': '' @ strerror os @ [newline]) w))"

text \<open>Lines 64 to 72.\<close>

definition usage_text :: "string \<Rightarrow> string" where
  "usage_text binname =
     ''Usage: '' @ binname @ '' outfile interval interface'' @ [newline]
     @ ''  - outfile: File to write data to.'' @ [newline]
     @ ''  - intervall: Intervall of data retrival in seconds.'' @ [newline]
     @ ''  - interface: Network interface to retrive data from.'' @ [newline]"

definition usage :: "string \<Rightarrow> world \<Rightarrow> status \<times> world" where
  "usage binname w = exit_with 1 (fprintf_stderr (usage_text binname) w)"

subsection \<open>The cancellation flag (lines 45 and 74 to 78)\<close>

datatype signal = SIGINT | SIGTERM

record vars =
  quit :: "8 word"
  old_inb :: uint32_t
  old_outb :: uint32_t
  old_tv :: timeval

definition signalhandler :: "signal \<Rightarrow> vars \<Rightarrow> vars" where
  "signalhandler sig v = v\<lparr>quit := 1\<rparr>"

subsection \<open>Interface lookup (lines 82 to 129)\<close>

text \<open>
  \<open>getifdata\<close> and \<open>getifnumber\<close> make one \<open>sysctl\<close> call each. The answer of the kernel
  is an argument of the model: \<open>None\<close> when the call fails, the data it fills in otherwise.
\<close>

definition getifdata :: "os \<Rightarrow> ifmibdata option \<Rightarrow> world \<Rightarrow> ifmibdata res" where
  "getifdata os answer w =
     (let w' = w\<lparr>sysctls := Suc (sysctls w)\<rparr>
      in case answer of
           None \<Rightarrow> Inl (error os ''getifdata'' 91 [] False w')
         | Some data \<Rightarrow> Inr (data, w'))"

definition getifnumber :: "os \<Rightarrow> world \<Rightarrow> uint32_t res" where
  "getifnumber os w =
     (let w' = w\<lparr>sysctls := Suc (sysctls w)\<rparr>
      in case ifcount os of
           None \<Rightarrow> Inl (error os ''getifnumber'' 102 [] False w')
         | Some data \<Rightarrow> Inr (data, w'))"

text \<open>
  \<open>for (int i = 1; i <= num; i++)\<close>: the comparison is unsigned, and \<open>i++\<close> at
  \<open>INT_MAX\<close> would overflow. Interface names are compared as strings (\<open>strcmp\<close>).
\<close>

function getifrow_loop :: "os \<Rightarrow> string \<Rightarrow> int \<Rightarrow> int \<Rightarrow> world \<Rightarrow> int res" where
  "getifrow_loop os ifname num i w =
     (if i \<le> num
      then (case getifdata os (ifrow os i) w of
              Inl out \<Rightarrow> Inl out
            | Inr (data, w') \<Rightarrow>
                if ifmd_name data = ifname then Inr (i, w')
                else if i = 2 ^ 31 - 1 then Inl (Undefined SignedOverflow, w')
                else getifrow_loop os ifname num (i + 1) w')
      else Inr (- 1, w))"
  by pat_completeness auto
termination
  by (relation "measure (\<lambda>(os, ifname, num, i, w). nat (num + 1 - i))") auto

declare getifrow_loop.simps [simp del]

definition getifrow :: "os \<Rightarrow> string \<Rightarrow> world \<Rightarrow> int res" where
  "getifrow os ifname w =
     (case getifnumber os w of
        Inl out \<Rightarrow> Inl out
      | Inr (num, w') \<Rightarrow>
          if malloc_row os then getifrow_loop os ifname (uint num) 1 w'
          else Inl (error os ''getifrow'' 114 [] False w'))"

subsection \<open>The output stream\<close>

text \<open>\<open>fopen(outfile, "w")\<close> creates the file or truncates it to length zero.\<close>

definition fopen_w :: "os \<Rightarrow> string \<Rightarrow> world \<Rightarrow> world option" where
  "fopen_w os path w =
     (if writable os path
      then Some (w\<lparr>files := (files w)(path \<mapsto> []), stream := Some path, pending := []\<rparr>)
      else None)"

text \<open>
  \<open>fwrite(s, strlen(s), 1, csv)\<close> appends the text to the stream, and \<open>stdio\<close> writes
  \<open>out\<close> of the pending bytes to the file. The result of \<open>fwrite\<close> is not looked at.
\<close>

definition fwrite :: "string \<Rightarrow> nat \<Rightarrow> world \<Rightarrow> world" where
  "fwrite text out w = transmit out (w\<lparr>pending := pending w @ text\<rparr>)"

subsection \<open>The sampling loop (lines 190 to 229)\<close>

text \<open>
  One pass through the loop asks the environment three things: the interface data, the
  time of day and the local calendar time. A \<open>tick\<close> holds the answers, and says
  how many bytes \<open>stdio\<close> writes out when the row is handed to \<open>fwrite\<close>,
  whether a handled signal was delivered while the pass was working (at any moment
  before it tests \<open>quit\<close>) and whether one was delivered during the \<open>usleep\<close> that
  follows. The loop runs for as long as there are ticks; when they are used up the
  process is still \<open>Running\<close>.
\<close>

record tick =
  reading :: "ifmibdata option"
  clock :: timeval
  localtm :: "tm option"
  written_out :: nat
  sig_work :: "signal option"
  sig_sleep :: "signal option"

text \<open>Lines 196 to 221: retrieve, compute, back up, write.\<close>

definition sample :: "os \<Rightarrow> tick \<Rightarrow> vars \<Rightarrow> world \<Rightarrow> vars res" where
  "sample os t v w =
     (case getifdata os (reading t) w of
        Inl out \<Rightarrow> Inl out
      | Inr (data, w1) \<Rightarrow>
          (case timersub (clock t) (old_tv v) of
             Inl f \<Rightarrow> Inl (Undefined f, w1)
           | Inr tv \<Rightarrow>
               (case normalize (throughput (ifi_ibytes data) (old_inb v)) tv of
                  Inl f \<Rightarrow> Inl (Undefined f, w1)
                | Inr cur_inb \<Rightarrow>
                    (case normalize (throughput (ifi_obytes data) (old_outb v)) tv of
                       Inl f \<Rightarrow> Inl (Undefined f, w1)
                     | Inr cur_outb \<Rightarrow>
                         (case localtm t of
                            None \<Rightarrow> Inl (Undefined NullTime, w1)
                          | Some time \<Rightarrow>
                              (case strftime time of
                                 Inl f \<Rightarrow> Inl (Undefined f, w1)
                               | Inr ts \<Rightarrow>
                                   Inr (v\<lparr>old_inb := backup (ifi_ibytes data),
                                          old_outb := backup (ifi_obytes data),
                                          old_tv := clock t\<rparr>,
                                        (fwrite (csv_line ts cur_inb cur_outb)
                                           (written_out t) w1)
                                          \<lparr>cycles := Suc (cycles w1)\<rparr>)))))))"

text \<open>
  \<open>usleep(interval * 1000 * 1000)\<close> (line 228): the product is computed in \<open>int\<close> and
  then converted to the unsigned 32-bit \<open>useconds_t\<close>.
\<close>

definition in_int :: "int \<Rightarrow> bool" where
  "in_int x = (- (2 ^ 31) \<le> x \<and> x < 2 ^ 31)"

definition sleep_arg :: "int \<Rightarrow> fault + uint32_t" where
  "sleep_arg interval =
     (if in_int (interval * 1000) \<and> in_int (interval * 1000 * 1000)
      then Inr (word_of_int (interval * 1000 * 1000))
      else Inl SignedOverflow)"

definition usleep :: "uint32_t \<Rightarrow> world \<Rightarrow> world" where
  "usleep us w = w\<lparr>sleeps := sleeps w @ [us]\<rparr>"

text \<open>Lines 231 to 234: \<open>fflush\<close>, \<open>fclose\<close>, \<open>return 0\<close>.\<close>

definition finish :: "world \<Rightarrow> status \<times> world" where
  "finish w = exit_with 0 (fclose (fflush w))"

definition deliver :: "signal option \<Rightarrow> vars \<Rightarrow> vars" where
  "deliver s v = (case s of None \<Rightarrow> v | Some sig \<Rightarrow> signalhandler sig v)"

fun loop :: "os \<Rightarrow> int \<Rightarrow> tick list \<Rightarrow> vars \<Rightarrow> world \<Rightarrow> status \<times> world" where
  "loop os interval [] v w = (Running, w)"
| "loop os interval (t # ts) v w =
     (case sample os t v w of
        Inl out \<Rightarrow> out
      | Inr (v1, w1) \<Rightarrow>
          if quit (deliver (sig_work t) v1) = 0
          then (case sleep_arg interval of
                  Inl f \<Rightarrow> (Undefined f, w1)
                | Inr us \<Rightarrow>
                    loop os interval ts
                      (deliver (sig_sleep t) (deliver (sig_work t) v1)) (usleep us w1))
          else finish w1)"

subsection \<open>\<open>main\<close> (lines 145 to 235)\<close>

definition isdigit :: "char \<Rightarrow> bool" where
  "isdigit c = (48 \<le> (of_char c :: nat) \<and> (of_char c :: nat) \<le> 57)"

text \<open>
  \<open>strtol(argv[2], NULL, 10)\<close> is only reached with a string of decimal digits: the
  result is its value, or \<open>LONG_MAX\<close> when the value is larger. The cast to \<open>int\<close>
  keeps the low 32 bits.
\<close>

definition strtol :: "string \<Rightarrow> int" where
  "strtol s = min (foldl (\<lambda>a c. 10 * a + (int (of_char c) - 48)) 0 s) (2 ^ 63 - 1)"

definition to_int32 :: "int \<Rightarrow> int" where
  "to_int32 x = sint (word_of_int x :: 32 word)"

text \<open>\<open>argv[0]\<close>; with an empty argument vector it is \<open>NULL\<close>, which \<open>%s\<close> prints as \<open>(null)\<close>.\<close>

definition binname :: "string list \<Rightarrow> string" where
  "binname argv = (case argv of [] \<Rightarrow> ''(null)'' | a # _ \<Rightarrow> a)"

definition main :: "os \<Rightarrow> string list \<Rightarrow> tick list \<Rightarrow> world \<Rightarrow> status \<times> world" where
  "main os argv ticks w =
     (if length argv = 4
      then (let outfile = argv ! 1
            in if list_all isdigit (argv ! 2)
               then (let interval = to_int32 (strtol (argv ! 2)); inter = argv ! 3
                     in case getifrow os inter w of
                          Inl out \<Rightarrow> out
                        | Inr (row, w1) \<Rightarrow>
                            if row < 1
                            then error os ''main'' 170
                                   (''Couldn'' @ [CHR 0x27] @ ''t get interface'') True w1
                            else (case fopen_w os outfile w1 of
                                    None \<Rightarrow> error os ''main'' 181 [] False w1
                                  | Some w2 \<Rightarrow>
                                      if malloc_main os
                                      then loop os interval ticks
                                             \<lparr>quit = 0, old_inb = 0, old_outb = 0,
                                              old_tv = stack_tv os\<rparr>
                                             (fwrite header (header_out os) w2)
                                      else error os ''main'' 188 [] False
                                             (fwrite header (header_out os) w2)))
               else usage (binname argv) w)
      else usage (binname argv) w)"

text \<open>The state of the outside world before the process has done anything.\<close>

definition boot :: "(string \<rightharpoonup> string) \<Rightarrow> world" where
  "boot fs =
     \<lparr>files = fs, stream = None, pending = [], errout = [], sysctls = 0, sleeps = [],
      cycles = 0\<rparr>"

text \<open>
  All that has been written for a path: the contents of the file, followed by what is
  pending when the stream is open on it.
\<close>

definition written :: "string \<Rightarrow> world \<Rightarrow> string" where
  "written path w =
     (case files w path of None \<Rightarrow> [] | Some c \<Rightarrow> c)
     @ (if stream w = Some path then pending w else [])"

subsection \<open>Vocabulary of the properties\<close>

text \<open>
  Row \<open>i\<close> of the interface table answers with the name \<open>ifname\<close>, or answers with
  another name.
\<close>

definition named :: "os \<Rightarrow> int \<Rightarrow> string \<Rightarrow> bool" where
  "named os i ifname = (case ifrow os i of None \<Rightarrow> False | Some d \<Rightarrow> ifmd_name d = ifname)"

definition other :: "os \<Rightarrow> int \<Rightarrow> string \<Rightarrow> bool" where
  "other os i ifname = (case ifrow os i of None \<Rightarrow> False | Some d \<Rightarrow> ifmd_name d \<noteq> ifname)"

text \<open>
  The reader of a data row, written from the specification of the format: the row ends
  with a newline and has three fields separated by commas, a time stamp of the shape
  \<open>YYYY.MM.DD HH:MM:SS\<close> and two decimal integers. \<open>tm_ok\<close> says that a broken-down
  time is a calendar time with a year of four digits; \<open>csv_ok content n\<close> says that
  \<open>content\<close> is the header line followed by \<open>n\<close> rows that the reader accepts.
\<close>

definition tm_ok :: "tm \<Rightarrow> bool" where
  "tm_ok time =
     (0 \<le> tm_sec time \<and> tm_sec time \<le> 60 \<and> 0 \<le> tm_min time \<and> tm_min time \<le> 59
      \<and> 0 \<le> tm_hour time \<and> tm_hour time \<le> 23 \<and> 1 \<le> tm_mday time \<and> tm_mday time \<le> 31
      \<and> 0 \<le> tm_mon time \<and> tm_mon time \<le> 11
      \<and> 1000 \<le> tm_year time + 1900 \<and> tm_year time + 1900 \<le> 9999)"

definition is_stamp :: "string \<Rightarrow> bool" where
  "is_stamp t =
     list_all2 (\<lambda>p c. if p = CHR ''d'' then isdigit c else c = p) ''dddd.dd.dd dd:dd:dd'' t"

definition parse_nat :: "string \<Rightarrow> nat option" where
  "parse_nat s =
     (if s \<noteq> [] \<and> list_all isdigit s
      then Some (foldl (\<lambda>a c. 10 * a + (of_char c - 48)) 0 s) else None)"

definition parse_int :: "string \<Rightarrow> int option" where
  "parse_int s =
     (if s \<noteq> [] \<and> hd s = CHR ''-'' then map_option (\<lambda>n. - int n) (parse_nat (tl s))
      else map_option int (parse_nat s))"

fun split_at :: "char \<Rightarrow> string \<Rightarrow> string \<Rightarrow> string list" where
  "split_at sep acc [] = [acc]"
| "split_at sep acc (c # cs) =
     (if c = sep then acc # split_at sep [] cs else split_at sep (acc @ [c]) cs)"

definition parse_line :: "string \<Rightarrow> (string \<times> int \<times> int) option" where
  "parse_line l =
     (if l \<noteq> [] \<and> last l = newline
      then (case split_at CHR '','' [] (butlast l) of
              [t, a, b] \<Rightarrow>
                (if is_stamp t
                 then (case parse_int a of
                         None \<Rightarrow> None
                       | Some x \<Rightarrow> (case parse_int b of None \<Rightarrow> None | Some y \<Rightarrow> Some (t, x, y)))
                 else None)
            | _ \<Rightarrow> None)
      else None)"

definition tick_ok :: "tick \<Rightarrow> bool" where
  "tick_ok t = (case localtm t of None \<Rightarrow> True | Some time \<Rightarrow> tm_ok time)"

definition csv_ok :: "string \<Rightarrow> nat \<Rightarrow> bool" where
  "csv_ok content n =
     (\<exists>rows. content = header @ concat rows \<and> length rows = n
             \<and> list_all (\<lambda>r. parse_line r \<noteq> None) rows)"

subsection \<open>A host and readings for the examples\<close>

text \<open>
  A machine with the interfaces \<open>lo0\<close> and \<open>em0\<close>, on which every call succeeds,
  the stack slot of \<open>old_tv\<close> holds zeroes and \<open>stdio\<close> keeps the few bytes of the
  examples in its buffer until the stream is flushed, and a reading of \<open>em0\<close> taken
  \<open>sec\<close> seconds and \<open>usec\<close> microseconds after the epoch on 13 May 2014 (UTC).
\<close>

definition example_host :: os where
  "example_host =
     \<lparr>ifcount = Some 2,
      ifrow = (\<lambda>i. if i = 1 then Some \<lparr>ifmd_name = ''lo0'', ifi_ibytes = 0, ifi_obytes = 0\<rparr>
                  else if i = 2 then Some \<lparr>ifmd_name = ''em0'', ifi_ibytes = 0, ifi_obytes = 0\<rparr>
                  else None),
      malloc_row = True, malloc_main = True, writable = (\<lambda>path. True),
      strerror = ''Input/output error'',
      stack_tv = \<lparr>tv_sec = 0, tv_usec = 0\<rparr>, header_out = 0\<rparr>"

definition em0_tick :: "u_long \<Rightarrow> u_long \<Rightarrow> int \<Rightarrow> int \<Rightarrow> tick" where
  "em0_tick inb outb sec usec =
     \<lparr>reading = Some \<lparr>ifmd_name = ''em0'', ifi_ibytes = inb, ifi_obytes = outb\<rparr>,
      clock = \<lparr>tv_sec = sec, tv_usec = usec\<rparr>,
      localtm = Some \<lparr>tm_sec = sec mod 60, tm_min = sec div 60 mod 60,
                      tm_hour = sec div 3600 mod 24, tm_mday = 13, tm_mon = 4, tm_year = 114\<rparr>,
      written_out = 0, sig_work = None, sig_sleep = None\<rparr>"

text \<open>The same readings with \<open>SIGINT\<close> or \<open>SIGTERM\<close> delivered during the pass or the sleep.\<close>

definition interrupted_asleep :: "signal \<Rightarrow> tick \<Rightarrow> tick" where
  "interrupted_asleep sig t = t\<lparr>sig_sleep := Some sig\<rparr>"

definition interrupted_working :: "signal \<Rightarrow> tick \<Rightarrow> tick" where
  "interrupted_working sig t = t\<lparr>sig_work := Some sig\<rparr>"

text \<open>
  The world when the example host enters the loop: three queries made, the file created
  and empty, the header pending.
\<close>

definition example_start :: world where
  "example_start =
     \<lparr>files = [''out.csv'' \<mapsto> []], stream = Some ''out.csv'', pending = header, errout = [],
      sysctls = 3, sleeps = [], cycles = 0\<rparr>"

definition example_vars :: vars where
  "example_vars = \<lparr>quit = 0, old_inb = 0, old_outb = 0, old_tv = \<lparr>tv_sec = 0, tv_usec = 0\<rparr>\<rparr>"

section \<open>Properties\<close>

subsection \<open>Decimal digits\<close>

lemma digit_char_numerals:
  "digit_char 0 = CHR ''0'' \<and> digit_char 1 = CHR ''1'' \<and> digit_char (Suc 0) = CHR ''1''
   \<and> digit_char 2 = CHR ''2''
   \<and> digit_char 3 = CHR ''3'' \<and> digit_char 4 = CHR ''4'' \<and> digit_char 5 = CHR ''5''
   \<and> digit_char 6 = CHR ''6'' \<and> digit_char 7 = CHR ''7'' \<and> digit_char 8 = CHR ''8''
   \<and> digit_char 9 = CHR ''9''"
  by code_simp

subsection \<open>Narrowing a counter to 32 bits\<close>

lemma word_of_int_mod64: "(word_of_int (x mod 2 ^ 64) :: uint32_t) = word_of_int x"
proof -
  have "(2::int) ^ 32 dvd 2 ^ 64" by (simp add: le_imp_power_dvd)
  then have "x mod 2 ^ 64 mod 2 ^ 32 = x mod 2 ^ 32" by (rule mod_mod_cancel)
  then show ?thesis by (simp add: word_of_int_eq_iff take_bit_eq_mod)
qed

lemma ucast_diff_narrow: "(ucast ((a::u_long) - b) :: uint32_t) = ucast a - ucast b"
proof -
  have "(ucast (a - b) :: uint32_t) = word_of_int (uint (a - b))" by simp
  also have "uint (a - b) = (uint a - uint b) mod 2 ^ 64" by (simp add: uint_word_ariths)
  also have "(word_of_int ((uint a - uint b) mod 2 ^ 64) :: uint32_t) = word_of_int (uint a - uint b)"
    by (rule word_of_int_mod64)
  also have "\<dots> = ucast a - ucast b" by simp
  finally show ?thesis .
qed

lemma ucast_sum_narrow: "(ucast ((a::u_long) + b) :: uint32_t) = ucast a + ucast b"
proof -
  have "(ucast (a + b) :: uint32_t) = word_of_int (uint (a + b))" by simp
  also have "uint (a + b) = (uint a + uint b) mod 2 ^ 64" by (simp add: uint_word_ariths)
  also have "(word_of_int ((uint a + uint b) mod 2 ^ 64) :: uint32_t) = word_of_int (uint a + uint b)"
    by (rule word_of_int_mod64)
  also have "\<dots> = ucast a + ucast b" by simp
  finally show ?thesis .
qed

lemma ucast_prod_narrow: "(ucast ((a::u_long) * b) :: uint32_t) = ucast a * ucast b"
proof -
  have "(ucast (a * b) :: uint32_t) = word_of_int (uint (a * b))" by simp
  also have "uint (a * b) = (uint a * uint b) mod 2 ^ 64" by (simp add: uint_word_ariths)
  also have "(word_of_int ((uint a * uint b) mod 2 ^ 64) :: uint32_t) = word_of_int (uint a * uint b)"
    by (rule word_of_int_mod64)
  also have "\<dots> = ucast a * ucast b" by simp
  finally show ?thesis .
qed

lemma ucast_widen_narrow: "(ucast (ucast (x :: uint32_t) :: u_long) :: uint32_t) = x"
  by (rule bit_word_eqI) (simp add: bit_simps)

lemma throughput_backup: "throughput cur (backup prev) = ucast cur - ucast prev"
  by (simp add: throughput_def backup_def ucast_diff_narrow ucast_widen_narrow)

lemma uint_narrow: "uint (ucast (x :: u_long) :: uint32_t) = uint x mod 2 ^ 32"
  by (simp add: unsigned_ucast_eq take_bit_eq_mod)

text \<open>
  Claim C9. The delta of two consecutive readings of a kernel counter is computed by
  unsigned 32-bit subtraction on the low 32 bits of the readings: it equals
  (current - previous) mod 2^32, it is never negative, a counter that went down by one
  gives the wrapped value 2^32 - 1, and a counter that grew by a multiple of 2^32 gives 0.
\<close>

theorem throughput_is_difference_mod_2_32:
  "uint (throughput cur (backup prev)) = (uint cur - uint prev) mod 2 ^ 32
   \<and> 0 \<le> uint (throughput cur (backup prev))
   \<and> uint (throughput cur (backup prev)) < 2 ^ 32
   \<and> uint (throughput (prev - 1) (backup prev)) = 2 ^ 32 - 1
   \<and> throughput (prev + k * 2 ^ 32) (backup prev) = 0"
proof -
  have "uint (throughput cur (backup prev))
        = (uint cur mod 2 ^ 32 - uint prev mod 2 ^ 32) mod 2 ^ 32"
    by (simp only: throughput_backup uint_word_ariths uint_narrow) simp
  also have "\<dots> = (uint cur - uint prev) mod 2 ^ 32"
    by (simp add: mod_diff_eq)
  finally have eq: "uint (throughput cur (backup prev)) = (uint cur - uint prev) mod 2 ^ 32" .
  have lo: "0 \<le> uint (throughput cur (backup prev))" by simp
  have hi: "uint (throughput cur (backup prev)) < 2 ^ 32"
    using uint_bounded [of "throughput cur (backup prev)"] by simp
  have "throughput (prev - 1) (backup prev) = - 1"
    by (simp add: throughput_backup ucast_diff_narrow)
  moreover have "uint (- 1 :: uint32_t) = 2 ^ 32 - 1"
    by (simp add: unsigned_minus_1_eq_mask mask_eq_exp_minus_1)
  ultimately have down: "uint (throughput (prev - 1) (backup prev)) = 2 ^ 32 - 1"
    by simp
  have "(ucast ((2::u_long) ^ 32) :: uint32_t) = 0" by simp
  then have mult: "throughput (prev + k * 2 ^ 32) (backup prev) = 0"
    by (simp only: throughput_backup ucast_sum_narrow ucast_prod_narrow) simp
  from eq lo hi down mult show ?thesis by blast
qed

subsection \<open>The stream and the exits\<close>

lemma transmit_fields [simp]:
  "stream (transmit n w) = stream w"
  "errout (transmit n w) = errout w"
  "sysctls (transmit n w) = sysctls w"
  "sleeps (transmit n w) = sleeps w"
  "cycles (transmit n w) = cycles w"
  by (simp_all add: transmit_def split: option.splits)

lemma transmit_closed [simp]: "stream w = None \<Longrightarrow> transmit n w = w"
  by (simp add: transmit_def)

lemma written_transmit [simp]: "written path (transmit n w) = written path w"
  by (simp add: written_def transmit_def split: option.splits)

lemma fclose_fields [simp]:
  "stream (fclose w) = None"
  "errout (fclose w) = errout w"
  "sysctls (fclose w) = sysctls w"
  "sleeps (fclose w) = sleeps w"
  "cycles (fclose w) = cycles w"
  by (simp_all add: fclose_def fflush_def)

lemma fclose_closed [simp]: "stream w = None \<Longrightarrow> files (fclose w) = files w"
  by (simp add: fclose_def fflush_def)

lemma written_fclose [simp]: "written path (fclose w) = written path w"
  by (simp add: written_def fclose_def fflush_def transmit_def split: option.splits)

lemma fclose_file: "stream w = Some path \<Longrightarrow> files (fclose w) path = Some (written path w)"
  by (simp add: fclose_def fflush_def transmit_def written_def)

lemma fclose_twice [simp]: "fclose (fclose w) = fclose w"
  by (simp add: fclose_def fflush_def)

lemma fclose_fflush [simp]: "fclose (fflush w) = fclose w"
  by (cases "stream w") (simp_all add: fclose_def fflush_def transmit_def)

lemma finish_eq: "finish w = (Exited 0, fclose w)"
  by (simp add: finish_def exit_with_def)

lemma fwrite_fields [simp]:
  "stream (fwrite text out w) = stream w"
  "errout (fwrite text out w) = errout w"
  "sysctls (fwrite text out w) = sysctls w"
  "sleeps (fwrite text out w) = sleeps w"
  "cycles (fwrite text out w) = cycles w"
  by (simp_all add: fwrite_def)

lemma written_fwrite:
  "stream w = Some path \<Longrightarrow> written path (fwrite text out w) = written path w @ text"
  by (simp add: fwrite_def) (simp add: written_def)

lemma error_eq:
  "error os func line msg hasmsg w
   = (Exited 1, fclose (w\<lparr>errout := errout w @ take 63 (func @ '', line '' @ show_int line) @ '': ''
                                     @ (if hasmsg then msg else strerror os) @ [newline]\<rparr>))"
  by (simp add: error_def exit_with_def fprintf_stderr_def Let_def)

lemma error_fields [simp]:
  "fst (error os func line msg hasmsg w) = Exited 1"
  "stream (snd (error os func line msg hasmsg w)) = None"
  "sysctls (snd (error os func line msg hasmsg w)) = sysctls w"
  "sleeps (snd (error os func line msg hasmsg w)) = sleeps w"
  "cycles (snd (error os func line msg hasmsg w)) = cycles w"
  "written path (snd (error os func line msg hasmsg w)) = written path w"
  by (simp_all add: error_eq) (simp add: written_def)

lemma error_closed:
  "stream w = None \<Longrightarrow> files (snd (error os func line msg hasmsg w)) = files w"
  by (simp add: error_eq)

lemma usage_fields [simp]:
  "fst (usage b w) = Exited 1"
  "sysctls (snd (usage b w)) = sysctls w"
  "sleeps (snd (usage b w)) = sleeps w"
  "cycles (snd (usage b w)) = cycles w"
  "errout (snd (usage b w)) = errout w @ usage_text b"
  by (simp_all add: usage_def exit_with_def fprintf_stderr_def)

lemma usage_closed: "stream w = None \<Longrightarrow> files (snd (usage b w)) = files w"
  by (simp add: usage_def exit_with_def fprintf_stderr_def)

subsection \<open>Command line\<close>

text \<open>
  Claim C7. When the argument vector does not have four entries (the program name and
  three arguments), or the interval argument contains a character that is not a digit,
  the program, started with the files \<open>fs\<close>, prints the usage message on the error
  stream and exits with status 1; it has made no \<open>sysctl\<close> call and the files are
  as they were.
\<close>

theorem usage_on_bad_arguments:
  assumes "length argv \<noteq> 4 \<or> (\<exists>c \<in> set (argv ! 2). \<not> isdigit c)"
  shows "fst (main os argv ticks (boot fs)) = Exited 1
         \<and> errout (snd (main os argv ticks (boot fs))) = usage_text (binname argv)
         \<and> sysctls (snd (main os argv ticks (boot fs))) = 0
         \<and> files (snd (main os argv ticks (boot fs))) = fs"
proof -
  have "main os argv ticks (boot fs) = usage (binname argv) (boot fs)"
  proof (cases "length argv = 4")
    case False
    then show ?thesis by (simp add: main_def)
  next
    case True
    with assms have "\<not> list_all isdigit (argv ! 2)" by (auto simp: list_all_iff)
    with True show ?thesis by (simp add: main_def)
  qed
  moreover have "stream (boot fs) = None" by (simp add: boot_def)
  ultimately show ?thesis by (simp add: usage_closed) (simp add: boot_def)
qed

theorem usage_on_bad_arguments_witness:
  "fst (main example_host [''ifstat'', ''out.csv'', ''abc'', ''em0''] [] (boot Map.empty)) = Exited 1
   \<and> errout (snd (main example_host [''ifstat'', ''out.csv'', ''abc'', ''em0''] [] (boot Map.empty)))
       = usage_text ''ifstat''
   \<and> sysctls (snd (main example_host [''ifstat'', ''out.csv'', ''abc'', ''em0''] [] (boot Map.empty))) = 0
   \<and> fst (main example_host [''ifstat'', ''out.csv'', ''1''] [] (boot Map.empty)) = Exited 1"
  using usage_on_bad_arguments
          [where argv = "[''ifstat'', ''out.csv'', ''abc'', ''em0'']" and os = example_host
             and ticks = "[]" and fs = Map.empty]
        usage_on_bad_arguments
          [where argv = "[''ifstat'', ''out.csv'', ''1'']" and os = example_host
             and ticks = "[]" and fs = Map.empty]
  by (simp add: isdigit_def binname_def)

subsection \<open>Interface lookup\<close>

lemma getifdata_Some [simp]:
  "getifdata os (Some d) w = Inr (d, w\<lparr>sysctls := Suc (sysctls w)\<rparr>)"
  by (simp add: getifdata_def)

lemma getifrow_loop_found:
  assumes "i \<le> m" "m \<le> num" "m < 2 ^ 31" "named os m ifname"
    and "\<forall>j. i \<le> j \<and> j < m \<longrightarrow> other os j ifname"
  shows "getifrow_loop os ifname num i w = Inr (m, w\<lparr>sysctls := sysctls w + nat (m - i + 1)\<rparr>)"
  using assms
proof (induction "nat (m - i)" arbitrary: i w)
  case 0
  then have "i = m" by simp
  with 0 show ?case
    by (subst getifrow_loop.simps) (auto simp: named_def split: option.splits)
next
  case (Suc k)
  then have lt: "i < m" by simp
  with Suc.prems have "other os i ifname" by simp
  then obtain e where e: "ifrow os i = Some e" "ifmd_name e \<noteq> ifname"
    by (auto simp: other_def split: option.splits)
  have ih: "getifrow_loop os ifname num (i + 1) (w\<lparr>sysctls := Suc (sysctls w)\<rparr>)
            = Inr (m, (w\<lparr>sysctls := Suc (sysctls w)\<rparr>)
                        \<lparr>sysctls := sysctls (w\<lparr>sysctls := Suc (sysctls w)\<rparr>) + nat (m - (i + 1) + 1)\<rparr>)"
    using Suc.hyps(2) Suc.prems lt by (intro Suc.hyps(1)) auto
  have "nat (m - i + 1) = Suc (nat (m - i))" using lt by simp
  with lt Suc.prems e ih show ?case
    by (subst getifrow_loop.simps) (simp add: nat_add_distrib)
qed

lemma getifrow_loop_none:
  assumes "num < 2 ^ 31 - 1" "i \<le> num + 1"
    and "\<forall>j. i \<le> j \<and> j \<le> num \<longrightarrow> other os j ifname"
  shows "getifrow_loop os ifname num i w = Inr (- 1, w\<lparr>sysctls := sysctls w + nat (num + 1 - i)\<rparr>)"
  using assms
proof (induction "nat (num + 1 - i)" arbitrary: i w)
  case 0
  then have "i = num + 1" by simp
  then show ?case by (subst getifrow_loop.simps) simp
next
  case (Suc k)
  then have le: "i \<le> num" by simp
  with Suc.prems have "other os i ifname" by simp
  then obtain e where e: "ifrow os i = Some e" "ifmd_name e \<noteq> ifname"
    by (auto simp: other_def split: option.splits)
  have ih: "getifrow_loop os ifname num (i + 1) (w\<lparr>sysctls := Suc (sysctls w)\<rparr>)
            = Inr (- 1, (w\<lparr>sysctls := Suc (sysctls w)\<rparr>)
                        \<lparr>sysctls := sysctls (w\<lparr>sysctls := Suc (sysctls w)\<rparr>) + nat (num + 1 - (i + 1))\<rparr>)"
    using Suc.hyps(2) Suc.prems le by (intro Suc.hyps(1)) auto
  have "nat (num + 1 - i) = Suc (nat (num - i))" using le by simp
  with le Suc.prems e ih show ?case
    by (subst getifrow_loop.simps) simp
qed

lemma getifrow_loop_sound:
  "getifrow_loop os ifname num i w = Inr (r, w') \<Longrightarrow> 1 \<le> i \<Longrightarrow> 1 \<le> r \<Longrightarrow>
   i \<le> r \<and> r \<le> num \<and> named os r ifname \<and> (\<forall>j. i \<le> j \<and> j < r \<longrightarrow> other os j ifname)"
proof (induction os ifname num i w rule: getifrow_loop.induct)
  case (1 os ifname num i w)
  show ?case
  proof (cases "i \<le> num")
    case False
    with "1.prems" show ?thesis by (subst (asm) getifrow_loop.simps) simp
  next
    case True
    show ?thesis
    proof (cases "ifrow os i")
      case None
      with True "1.prems" show ?thesis
        by (subst (asm) getifrow_loop.simps) (simp add: getifdata_def)
    next
      case (Some d)
      show ?thesis
      proof (cases "ifmd_name d = ifname")
        case yes: True
        with True Some "1.prems" have "r = i"
          by (subst (asm) getifrow_loop.simps) simp
        with True Some yes show ?thesis by (auto simp: named_def)
      next
        case no: False
        with True Some "1.prems" have ne: "i \<noteq> 2 ^ 31 - 1"
          by (subst (asm) getifrow_loop.simps) (auto split: if_splits)
        with True Some no "1.prems"
        have rec: "getifrow_loop os ifname num (i + 1) (w\<lparr>sysctls := Suc (sysctls w)\<rparr>) = Inr (r, w')"
          by (subst (asm) getifrow_loop.simps) simp
        have "i + 1 \<le> r \<and> r \<le> num \<and> named os r ifname
              \<and> (\<forall>j. i + 1 \<le> j \<and> j < r \<longrightarrow> other os j ifname)"
          using "1.IH" [OF True _ _ no ne rec] Some "1.prems" by simp
        moreover have "other os i ifname" using Some no by (simp add: other_def)
        ultimately show ?thesis
        proof (intro conjI allI impI)
          fix j assume a: "i \<le> j \<and> j < r"
          assume b: "i + 1 \<le> r \<and> r \<le> num \<and> named os r ifname
              \<and> (\<forall>j. i + 1 \<le> j \<and> j < r \<longrightarrow> other os j ifname)"
            and c: "other os i ifname"
          show "other os j ifname"
          proof (cases "j = i")
            case True with c show ?thesis by simp
          next
            case False with a have "i + 1 \<le> j \<and> j < r" by simp
            with b show ?thesis by blast
          qed
        qed simp_all
      qed
    qed
  qed
qed


lemma show_int_170: "show_int 170 = ''170''"
  by (simp add: show_int_def digits.simps digit_char_numerals)

text \<open>
  Claim C6. \<open>getifrow\<close> asks for the number N of interfaces and compares the name of rows
  1, 2, ... with the target. It returns the first row that carries the name: a row m is
  returned when it carries the name and the rows before it answer with other names, and
  whatever row it returns is such a row. When all N rows answer with other names it
  returns -1, and \<open>main\<close>, started with the files \<open>fs\<close>, then reports the failure
  and exits with status 1 without having created or changed any file.
\<close>

theorem getifrow_returns_first_match:
  assumes "ifcount os = Some num" and "malloc_row os"
  shows "(1 \<le> m \<and> m \<le> uint num \<and> m < 2 ^ 31 \<and> named os m ifname
            \<and> (\<forall>j. 1 \<le> j \<and> j < m \<longrightarrow> other os j ifname)
          \<longrightarrow> (\<exists>w'. getifrow os ifname w = Inr (m, w')))
       \<and> (getifrow os ifname w = Inr (r, w1) \<and> 1 \<le> r
          \<longrightarrow> r \<le> uint num \<and> named os r ifname \<and> (\<forall>j. 1 \<le> j \<and> j < r \<longrightarrow> other os j ifname))
       \<and> (uint num < 2 ^ 31 - 1 \<and> (\<forall>j. 1 \<le> j \<and> j \<le> uint num \<longrightarrow> other os j ifname)
          \<longrightarrow> (\<exists>w'. getifrow os ifname w = Inr (- 1, w'))
              \<and> (length argv = 4 \<and> list_all isdigit (argv ! 2) \<and> argv ! 3 = ifname
                      \<and> w = boot fs
                  \<longrightarrow> fst (main os argv ticks w) = Exited 1
                      \<and> files (snd (main os argv ticks w)) = fs
                      \<and> errout (snd (main os argv ticks w))
                          = ''main, line 170: Couldn'' @ [CHR 0x27] @ ''t get interface'' @ [newline]))"
proof -
  have start: "getifrow os ifname w = getifrow_loop os ifname (uint num) 1 (w\<lparr>sysctls := Suc (sysctls w)\<rparr>)"
    using assms by (simp add: getifrow_def getifnumber_def)
  have found: "\<exists>w'. getifrow os ifname w = Inr (m, w')"
    if "1 \<le> m" "m \<le> uint num" "m < 2 ^ 31" "named os m ifname"
       "\<forall>j. 1 \<le> j \<and> j < m \<longrightarrow> other os j ifname"
    using getifrow_loop_found [OF that(1,2,3,4,5)] start by simp
  have sound: "r \<le> uint num \<and> named os r ifname \<and> (\<forall>j. 1 \<le> j \<and> j < r \<longrightarrow> other os j ifname)"
    if "getifrow os ifname w = Inr (r, w1)" "1 \<le> r"
    using getifrow_loop_sound [of os ifname "uint num" 1 _ r w1] that start by simp
  have none: "getifrow os ifname w = Inr (- 1, w\<lparr>sysctls := Suc (sysctls w) + nat (uint num)\<rparr>)"
    if "uint num < 2 ^ 31 - 1" "\<forall>j. 1 \<le> j \<and> j \<le> uint num \<longrightarrow> other os j ifname"
    using getifrow_loop_none [OF that(1) _ that(2), of "w\<lparr>sysctls := Suc (sysctls w)\<rparr>"] start by simp
  have exits: "fst (main os argv ticks w) = Exited 1
               \<and> files (snd (main os argv ticks w)) = fs
               \<and> errout (snd (main os argv ticks w))
                   = ''main, line 170: Couldn'' @ [CHR 0x27] @ ''t get interface'' @ [newline]"
    if "uint num < 2 ^ 31 - 1" "\<forall>j. 1 \<le> j \<and> j \<le> uint num \<longrightarrow> other os j ifname"
       "length argv = 4" "list_all isdigit (argv ! 2)" "argv ! 3 = ifname" "w = boot fs"
    using none [OF that(1,2)] that(3,4,5,6)
    by (simp add: main_def error_closed boot_def)
       (simp add: error_def exit_with_def fprintf_stderr_def show_int_170)
  from found sound none exits show ?thesis by blast
qed

theorem getifrow_returns_first_match_witness:
  "(\<exists>w'. getifrow example_host ''em0'' (boot Map.empty) = Inr (2, w'))
   \<and> fst (main example_host [''ifstat'', ''out.csv'', ''1'', ''em1''] [] (boot Map.empty)) = Exited 1
   \<and> files (snd (main example_host [''ifstat'', ''out.csv'', ''1'', ''em1''] [] (boot Map.empty))) = Map.empty"
proof -
  have cnt: "ifcount example_host = Some 2" and mem: "malloc_row example_host"
    by (simp_all add: example_host_def)
  have one: "j = 1" if "1 \<le> j \<and> j < 2" for j :: int using that by simp
  have a: "named example_host 2 ''em0''" by (simp add: named_def example_host_def)
  have b: "\<forall>j. 1 \<le> j \<and> j < 2 \<longrightarrow> other example_host j ''em0''"
    using one by (auto simp: other_def example_host_def)
  have two: "j = 1 \<or> j = 2" if "1 \<le> j \<and> j \<le> 2" for j :: int using that by auto
  have c: "\<forall>j. 1 \<le> j \<and> j \<le> uint (2 :: uint32_t) \<longrightarrow> other example_host j ''em1''"
    using two by (auto simp: other_def example_host_def)
  have d: "list_all isdigit (''1'')" by (simp add: isdigit_def)
  from getifrow_returns_first_match [OF cnt mem, of 2 "''em0''" "boot Map.empty"] a b
  have "\<exists>w'. getifrow example_host ''em0'' (boot Map.empty) = Inr (2, w')" by simp
  moreover
  from getifrow_returns_first_match [OF cnt mem, of _ "''em1''" "boot Map.empty" _ _
        "[''ifstat'', ''out.csv'', ''1'', ''em1'']" Map.empty "[]"] c d
  have "fst (main example_host [''ifstat'', ''out.csv'', ''1'', ''em1''] [] (boot Map.empty)) = Exited 1
   \<and> files (snd (main example_host [''ifstat'', ''out.csv'', ''1'', ''em1''] [] (boot Map.empty))) = Map.empty"
    by (simp add: boot_def)
  ultimately show ?thesis by blast
qed


subsection \<open>One pass of the loop\<close>

lemma sample_eval:
  assumes "reading t = Some data" and "timersub (clock t) (old_tv v) = Inr tv"
    and "normalize (throughput (ifi_ibytes data) (old_inb v)) tv = Inr a"
    and "normalize (throughput (ifi_obytes data) (old_outb v)) tv = Inr b"
    and "localtm t = Some time" and "strftime time = Inr ts"
  shows "sample os t v w
         = Inr (v\<lparr>old_inb := backup (ifi_ibytes data), old_outb := backup (ifi_obytes data),
                  old_tv := clock t\<rparr>,
                (fwrite (csv_line ts a b) (written_out t) (w\<lparr>sysctls := Suc (sysctls w)\<rparr>))
                  \<lparr>cycles := Suc (cycles w)\<rparr>)"
  using assms by (simp add: sample_def getifdata_def)

lemma sample_Inr:
  assumes "sample os t v w = Inr (v1, w1)"
  shows "\<exists>data tv a b time ts.
           reading t = Some data \<and> timersub (clock t) (old_tv v) = Inr tv
           \<and> normalize (throughput (ifi_ibytes data) (old_inb v)) tv = Inr a
           \<and> normalize (throughput (ifi_obytes data) (old_outb v)) tv = Inr b
           \<and> localtm t = Some time \<and> strftime time = Inr ts
           \<and> v1 = v\<lparr>old_inb := backup (ifi_ibytes data), old_outb := backup (ifi_obytes data),
                     old_tv := clock t\<rparr>
           \<and> w1 = (fwrite (csv_line ts a b) (written_out t) (w\<lparr>sysctls := Suc (sysctls w)\<rparr>))
                     \<lparr>cycles := Suc (cycles w)\<rparr>"
  using assms
  by (auto simp: sample_def getifdata_def Let_def split: option.splits sum.splits prod.splits)

lemma error_result:
  assumes "error os func line msg hasmsg w = (st, w1)"
  shows "st = Exited 1 \<and> stream w1 = None \<and> written path w1 = written path w
         \<and> cycles w1 = cycles w \<and> sleeps w1 = sleeps w \<and> sysctls w1 = sysctls w"
proof -
  from assms have "st = fst (error os func line msg hasmsg w)"
    "w1 = snd (error os func line msg hasmsg w)" by simp_all
  then show ?thesis by simp
qed

lemma sample_Inl:
  assumes "sample os t v w = Inl (st, w1)"
  shows "(st = Exited 1 \<and> stream w1 = None \<or> (\<exists>x. st = Undefined x) \<and> stream w1 = stream w)
         \<and> written path w1 = written path w \<and> cycles w1 = cycles w \<and> sleeps w1 = sleeps w"
proof -
  have a: "written path (w\<lparr>sysctls := n\<rparr>) = written path w" for n
    by (simp add: written_def)
  from assms show ?thesis
    by (auto simp: sample_def getifdata_def Let_def a
        split: option.splits sum.splits prod.splits dest!: error_result [where path = path])
qed

lemma sample_quit: "sample os t v w = Inr (v1, w1) \<Longrightarrow> quit v1 = quit v"
  by (drule sample_Inr) auto

lemma sample_sleeps: "sample os t v w = Inr (v1, w1) \<Longrightarrow> sleeps w1 = sleeps w"
  by (drule sample_Inr) auto

lemma sample_cycles: "sample os t v w = Inr (v1, w1) \<Longrightarrow> cycles w1 = Suc (cycles w)"
  by (drule sample_Inr) auto

lemma sample_stream: "sample os t v w = Inr (v1, w1) \<Longrightarrow> stream w1 = stream w"
  by (drule sample_Inr) auto

lemma deliver_None [simp]: "deliver None v = v"
  by (simp add: deliver_def)

lemma deliver_Some [simp]: "deliver (Some sig) v = v\<lparr>quit := 1\<rparr>"
  by (simp add: deliver_def signalhandler_def)

lemma deliver_quit: "quit (deliver s v) = (case s of None \<Rightarrow> quit v | Some sig \<Rightarrow> 1)"
  by (cases s) simp_all

lemma sample_reads:
  assumes "reading t = reading t'" and "clock t = clock t'" and "localtm t = localtm t'"
    and "written_out t = written_out t'"
  shows "sample os t v w = sample os t' v w"
  using assms by (simp add: sample_def cong: sum.case_cong option.case_cong prod.case_cong)

lemma sample_interrupted [simp]:
  "sample os (interrupted_asleep sig t) v w = sample os t v w"
  "sample os (interrupted_working sig t) v w = sample os t v w"
  by (rule sample_reads; simp add: interrupted_asleep_def interrupted_working_def)+

lemma interrupted_fields [simp]:
  "sig_work (interrupted_asleep sig t) = sig_work t"
  "sig_sleep (interrupted_asleep sig t) = Some sig"
  "sig_work (interrupted_working sig t) = Some sig"
  "sig_sleep (interrupted_working sig t) = sig_sleep t"
  by (simp_all add: interrupted_asleep_def interrupted_working_def)

subsection \<open>The example host\<close>

lemma example_lookup:
  "getifrow example_host ''em0'' (boot fs) = Inr (2, boot fs\<lparr>sysctls := 3\<rparr>)"
proof -
  have one: "j = 1" if "1 \<le> j \<and> j < 2" for j :: int using that by simp
  have n: "named example_host 2 ''em0''" by (simp add: named_def example_host_def)
  have o: "\<forall>j. 1 \<le> j \<and> j < 2 \<longrightarrow> other example_host j ''em0''"
    using one by (auto simp: other_def example_host_def)
  have "getifrow_loop example_host ''em0'' 2 1 (boot fs\<lparr>sysctls := 1\<rparr>)
        = Inr (2, boot fs\<lparr>sysctls := 3\<rparr>)"
    using getifrow_loop_found [of 1 2 2 example_host "''em0''" "boot fs\<lparr>sysctls := 1\<rparr>"] n o
    by simp
  then show ?thesis
    by (simp add: getifrow_def getifnumber_def example_host_def boot_def)
qed

lemma example_main:
  assumes "list_all isdigit iv"
  shows "main example_host [''ifstat'', ''out.csv'', iv, ''em0''] ticks (boot Map.empty)
         = loop example_host (to_int32 (strtol iv)) ticks example_vars example_start"
proof -
  have "fopen_w example_host ''out.csv'' (boot Map.empty\<lparr>sysctls := 3\<rparr>)
        = Some (boot Map.empty\<lparr>sysctls := 3, files := [''out.csv'' \<mapsto> []],
                               stream := Some ''out.csv'', pending := []\<rparr>)"
    by (simp add: fopen_w_def example_host_def boot_def)
  moreover have "fwrite header 0
                   (boot Map.empty\<lparr>sysctls := 3, files := [''out.csv'' \<mapsto> []],
                                   stream := Some ''out.csv'', pending := []\<rparr>)
                 = example_start"
    by (simp add: fwrite_def transmit_def boot_def example_start_def)
  moreover have "malloc_main example_host" "stack_tv example_host = \<lparr>tv_sec = 0, tv_usec = 0\<rparr>"
    "header_out example_host = 0"
    by (simp_all add: example_host_def)
  ultimately show ?thesis
    using assms example_lookup [of Map.empty] by (simp add: main_def example_vars_def)
qed

lemma em0_tick_fields [simp]:
  "reading (em0_tick inb outb sec usec)
     = Some \<lparr>ifmd_name = ''em0'', ifi_ibytes = inb, ifi_obytes = outb\<rparr>"
  "clock (em0_tick inb outb sec usec) = \<lparr>tv_sec = sec, tv_usec = usec\<rparr>"
  "localtm (em0_tick inb outb sec usec)
     = Some \<lparr>tm_sec = sec mod 60, tm_min = sec div 60 mod 60,
              tm_hour = sec div 3600 mod 24, tm_mday = 13, tm_mon = 4, tm_year = 114\<rparr>"
  "written_out (em0_tick inb outb sec usec) = 0"
  "sig_work (em0_tick inb outb sec usec) = None"
  "sig_sleep (em0_tick inb outb sec usec) = None"
  by (simp_all add: em0_tick_def)

text \<open>The arithmetic and the text of the example runs.\<close>

lemma example_arithmetic:
  "normalize 3000000000 \<lparr>tv_sec = 1400000000, tv_usec = 0\<rparr> = Inr 2
   \<and> normalize 5 \<lparr>tv_sec = 1400000000, tv_usec = 0\<rparr> = Inr 0
   \<and> normalize 100 \<lparr>tv_sec = 0, tv_usec = 0\<rparr> = Inl NonFiniteQuotient"
  by code_simp

lemma example_rates:
  "normalize 1000000 \<lparr>tv_sec = 1400000000, tv_usec = 0\<rparr> = Inr 0
   \<and> normalize 2000000 \<lparr>tv_sec = 1400000000, tv_usec = 0\<rparr> = Inr 0
   \<and> normalize 100 \<lparr>tv_sec = 1, tv_usec = 0\<rparr> = Inr 100
   \<and> normalize 300 \<lparr>tv_sec = 1, tv_usec = 0\<rparr> = Inr 300"
  by code_simp

lemma example_overflow:
  "normalize 5000 \<lparr>tv_sec = 0, tv_usec = 1\<rparr> = Inl OutOfRangeConversion"
  by code_simp

lemma example_rounding:
  "normalize 1015 \<lparr>tv_sec = 0, tv_usec = 1015\<rparr> = Inr 999999"
  by code_simp

lemma example_text:
  "strftime \<lparr>tm_sec = 20, tm_min = 53, tm_hour = 16, tm_mday = 13, tm_mon = 4, tm_year = 114\<rparr>
     = Inr ''2014.05.13 16:53:20''"
  "strftime \<lparr>tm_sec = 21, tm_min = 53, tm_hour = 16, tm_mday = 13, tm_mon = 4, tm_year = 114\<rparr>
     = Inr ''2014.05.13 16:53:21''"
  "csv_line ''2014.05.13 16:53:20'' 2 0 = ''2014.05.13 16:53:20,2,0'' @ [newline]"
  "csv_line ''2014.05.13 16:53:20'' 0 0 = ''2014.05.13 16:53:20,0,0'' @ [newline]"
  "csv_line ''2014.05.13 16:53:21'' 100 300 = ''2014.05.13 16:53:21,100,300'' @ [newline]"
  by (simp_all add: strftime_def pad2_def show_int_def digits.simps digit_char_numerals
      csv_line_def)

lemma example_first_pass:
  "sample example_host (em0_tick 3000000000 5 1400000000 0) example_vars w
   = Inr (\<lparr>quit = 0, old_inb = backup 3000000000, old_outb = backup 5,
            old_tv = \<lparr>tv_sec = 1400000000, tv_usec = 0\<rparr>\<rparr>,
          (fwrite (''2014.05.13 16:53:20,2,0'' @ [newline]) 0
             (w\<lparr>sysctls := Suc (sysctls w)\<rparr>))\<lparr>cycles := Suc (cycles w)\<rparr>)"
proof -
  have ts: "timersub \<lparr>tv_sec = 1400000000, tv_usec = 0\<rparr> \<lparr>tv_sec = 0, tv_usec = 0\<rparr>
            = Inr \<lparr>tv_sec = 1400000000, tv_usec = 0\<rparr>"
    by (simp add: timersub_def in_long_def)
  have th: "throughput 3000000000 0 = 3000000000" "throughput 5 0 = 5"
    by (simp_all add: throughput_def)
  show ?thesis
    by (subst sample_eval
          [where tv = "\<lparr>tv_sec = 1400000000, tv_usec = 0\<rparr>" and a = 2 and b = 0
             and ts = "''2014.05.13 16:53:20''"
             and data = "\<lparr>ifmd_name = ''em0'', ifi_ibytes = 3000000000, ifi_obytes = 5\<rparr>"
             and time = "\<lparr>tm_sec = 20, tm_min = 53, tm_hour = 16, tm_mday = 13, tm_mon = 4,
                           tm_year = 114\<rparr>"])
       (simp_all add: example_vars_def ts th example_arithmetic example_text)
qed

lemma digit_strings: "list_all isdigit ''0''" "list_all isdigit ''1''" "list_all isdigit ''5000''"
  by (simp_all add: isdigit_def)

lemma example_intervals:
  "to_int32 (strtol ''0'') = 0" "to_int32 (strtol ''1'') = 1" "to_int32 (strtol ''5000'') = 5000"
  "to_int32 (strtol []) = 0"
  by (simp_all add: to_int32_def strtol_def)

lemma example_sleep_args:
  "sleep_arg 0 = Inr 0" "sleep_arg 1 = Inr 1000000" "sleep_arg 5000 = Inl SignedOverflow"
  by (simp_all add: sleep_arg_def in_int_def)

lemma example_pass_1:
  "sample example_host (em0_tick 1000000 2000000 1400000000 0) example_vars w
   = Inr (\<lparr>quit = 0, old_inb = backup 1000000, old_outb = backup 2000000,
            old_tv = \<lparr>tv_sec = 1400000000, tv_usec = 0\<rparr>\<rparr>,
          (fwrite (''2014.05.13 16:53:20,0,0'' @ [newline]) 0
             (w\<lparr>sysctls := Suc (sysctls w)\<rparr>))\<lparr>cycles := Suc (cycles w)\<rparr>)"
proof -
  have ts: "timersub \<lparr>tv_sec = 1400000000, tv_usec = 0\<rparr> \<lparr>tv_sec = 0, tv_usec = 0\<rparr>
            = Inr \<lparr>tv_sec = 1400000000, tv_usec = 0\<rparr>"
    by (simp add: timersub_def in_long_def)
  have th: "throughput 1000000 0 = 1000000" "throughput 2000000 0 = 2000000"
    by (simp_all add: throughput_def)
  show ?thesis
    by (subst sample_eval
          [where tv = "\<lparr>tv_sec = 1400000000, tv_usec = 0\<rparr>" and a = 0 and b = 0
             and ts = "''2014.05.13 16:53:20''"
             and data = "\<lparr>ifmd_name = ''em0'', ifi_ibytes = 1000000, ifi_obytes = 2000000\<rparr>"
             and time = "\<lparr>tm_sec = 20, tm_min = 53, tm_hour = 16, tm_mday = 13, tm_mon = 4,
                           tm_year = 114\<rparr>"])
       (simp_all add: example_vars_def ts th example_rates example_text)
qed

lemma example_pass_2:
  "sample example_host (em0_tick 1000100 2000300 1400000001 0)
     \<lparr>quit = q, old_inb = backup 1000000, old_outb = backup 2000000,
            old_tv = \<lparr>tv_sec = 1400000000, tv_usec = 0\<rparr>\<rparr> w
   = Inr (\<lparr>quit = q, old_inb = backup 1000100, old_outb = backup 2000300,
            old_tv = \<lparr>tv_sec = 1400000001, tv_usec = 0\<rparr>\<rparr>,
          (fwrite (''2014.05.13 16:53:21,100,300'' @ [newline]) 0
             (w\<lparr>sysctls := Suc (sysctls w)\<rparr>))\<lparr>cycles := Suc (cycles w)\<rparr>)"
proof -
  have ts: "timersub \<lparr>tv_sec = 1400000001, tv_usec = 0\<rparr> \<lparr>tv_sec = 1400000000, tv_usec = 0\<rparr>
            = Inr \<lparr>tv_sec = 1, tv_usec = 0\<rparr>"
    by (simp add: timersub_def in_long_def)
  have th: "throughput 1000100 (backup 1000000) = 100" "throughput 2000300 (backup 2000000) = 300"
    by (simp_all add: throughput_def backup_def)
  show ?thesis
    by (subst sample_eval
          [where tv = "\<lparr>tv_sec = 1, tv_usec = 0\<rparr>" and a = 100 and b = 300
             and ts = "''2014.05.13 16:53:21''"
             and data = "\<lparr>ifmd_name = ''em0'', ifi_ibytes = 1000100, ifi_obytes = 2000300\<rparr>"
             and time = "\<lparr>tm_sec = 21, tm_min = 53, tm_hour = 16, tm_mday = 13, tm_mon = 4,
                           tm_year = 114\<rparr>"])
       (simp_all add: ts th example_rates example_text)
qed

subsection \<open>Sleeping\<close>

lemma loop_sleeps:
  assumes "sleep_arg iv = Inr us"
  shows "\<exists>k. sleeps (snd (loop os iv ts v w)) = sleeps w @ replicate k us"
proof (induction ts arbitrary: v w)
  case Nil
  have "sleeps w = sleeps w @ replicate 0 us" by simp
  then show ?case by (metis loop.simps(1) snd_conv)
next
  case (Cons t ts)
  show ?case
  proof (cases "sample os t v w")
    case (Inl out)
    obtain st w1 where out: "out = (st, w1)" by (cases out)
    with Inl have "sleeps w1 = sleeps w" using sample_Inl by blast
    with Inl out have "sleeps (snd (loop os iv (t # ts) v w)) = sleeps w @ replicate 0 us"
      by simp
    then show ?thesis by blast
  next
    case (Inr p)
    obtain v1 w1 where p: "p = (v1, w1)" by (cases p)
    with Inr have s: "sleeps w1 = sleeps w" using sample_sleeps by blast
    show ?thesis
    proof (cases "quit (deliver (sig_work t) v1) = 0")
      case False
      with Inr p s have "sleeps (snd (loop os iv (t # ts) v w)) = sleeps w @ replicate 0 us"
        by (simp add: finish_eq)
      then show ?thesis by blast
    next
      case True
      from Cons.IH [of "deliver (sig_sleep t) (deliver (sig_work t) v1)" "usleep us w1"]
      obtain k where "sleeps (snd (loop os iv ts (deliver (sig_sleep t) (deliver (sig_work t) v1))
                       (usleep us w1))) = sleeps (usleep us w1) @ replicate k us" by blast
      with Inr p s True assms
      have "sleeps (snd (loop os iv (t # ts) v w)) = sleeps w @ replicate (Suc k) us"
        by (simp add: usleep_def)
      then show ?thesis by blast
    qed
  qed
qed

lemma getifrow_loop_frame:
  "getifrow_loop os ifname num i w = Inr (r, w') \<Longrightarrow> \<exists>k. w' = w\<lparr>sysctls := k\<rparr>"
proof (induction os ifname num i w rule: getifrow_loop.induct)
  case (1 os ifname num i w)
  show ?case
  proof (cases "i \<le> num")
    case False
    with "1.prems" have "w' = w\<lparr>sysctls := sysctls w\<rparr>"
      by (subst (asm) getifrow_loop.simps) simp
    then show ?thesis by blast
  next
    case True
    show ?thesis
    proof (cases "ifrow os i")
      case None
      with True "1.prems" show ?thesis
        by (subst (asm) getifrow_loop.simps) (simp add: getifdata_def)
    next
      case (Some d)
      show ?thesis
      proof (cases "ifmd_name d = ifname")
        case yes: True
        with True Some "1.prems" have "w' = w\<lparr>sysctls := Suc (sysctls w)\<rparr>"
          by (subst (asm) getifrow_loop.simps) simp
        then show ?thesis by blast
      next
        case no: False
        with True Some "1.prems" have ne: "i \<noteq> 2 ^ 31 - 1"
          by (subst (asm) getifrow_loop.simps) (auto split: if_splits)
        with True Some no "1.prems"
        have rec: "getifrow_loop os ifname num (i + 1) (w\<lparr>sysctls := Suc (sysctls w)\<rparr>) = Inr (r, w')"
          by (subst (asm) getifrow_loop.simps) simp
        from "1.IH" [OF True _ _ no ne rec] Some
        obtain k where "w' = (w\<lparr>sysctls := Suc (sysctls w)\<rparr>)\<lparr>sysctls := k\<rparr>" by auto
        then have "w' = w\<lparr>sysctls := k\<rparr>" by simp
        then show ?thesis by blast
      qed
    qed
  qed
qed

lemma getifrow_frame:
  "getifrow os ifname w = Inr (r, w') \<Longrightarrow> \<exists>k. w' = w\<lparr>sysctls := k\<rparr>"
  by (auto simp: getifrow_def getifnumber_def Let_def split: option.splits if_splits
      dest!: getifrow_loop_frame)

text \<open>
  Claim C10. The empty string passes the digit test, which looks at no character, and
  \<open>strtol\<close> reads it as 0. When the interface is found and the file can be opened the
  program enters the loop with interval 0, and every \<open>usleep\<close> call it makes asks
  for 0 microseconds.
\<close>

theorem empty_interval_is_zero:
  assumes "getifrow os ifname w = Inr (row, w1)" and "1 \<le> row"
    and "fopen_w os outfile w1 = Some w2" and "malloc_main os"
  shows "list_all isdigit []
         \<and> to_int32 (strtol []) = 0
         \<and> main os [prog, outfile, [], ifname] ticks w
             = loop os 0 ticks
                 \<lparr>quit = 0, old_inb = 0, old_outb = 0, old_tv = stack_tv os\<rparr>
                 (fwrite header (header_out os) w2)
         \<and> sleep_arg 0 = Inr 0
         \<and> (\<exists>k. sleeps (snd (main os [prog, outfile, [], ifname] ticks w))
                  = sleeps w @ replicate k 0)"
proof -
  have z: "to_int32 (strtol []) = 0" by (simp add: to_int32_def strtol_def)
  have m: "main os [prog, outfile, [], ifname] ticks w
             = loop os 0 ticks
                 \<lparr>quit = 0, old_inb = 0, old_outb = 0, old_tv = stack_tv os\<rparr>
                 (fwrite header (header_out os) w2)"
    using assms by (simp add: main_def z)
  have s: "sleep_arg 0 = Inr 0" by (simp add: sleep_arg_def in_int_def)
  from assms(1) obtain k where "w1 = w\<lparr>sysctls := k\<rparr>" using getifrow_frame by blast
  with assms(3) have "sleeps (fwrite header (header_out os) w2) = sleeps w"
    by (auto simp: fopen_w_def split: if_splits)
  with loop_sleeps [OF s, of os ticks _ "fwrite header (header_out os) w2"] m
  have "\<exists>k. sleeps (snd (main os [prog, outfile, [], ifname] ticks w)) = sleeps w @ replicate k 0"
    by simp
  with z m s show ?thesis by simp
qed

theorem empty_interval_is_zero_witness:
  "fst (main example_host [''ifstat'', ''out.csv'', [], ''em0'']
          [em0_tick 3000000000 5 1400000000 0] (boot Map.empty)) = Running
   \<and> sleeps (snd (main example_host [''ifstat'', ''out.csv'', [], ''em0'']
          [em0_tick 3000000000 5 1400000000 0] (boot Map.empty))) = [0]"
proof -
  have a: "getifrow example_host ''em0'' (boot Map.empty) = Inr (2, boot Map.empty\<lparr>sysctls := 3\<rparr>)"
    by (rule example_lookup)
  have b: "fopen_w example_host ''out.csv'' (boot Map.empty\<lparr>sysctls := 3\<rparr>)
           = Some (boot Map.empty\<lparr>sysctls := 3, files := [''out.csv'' \<mapsto> []],
                                  stream := Some ''out.csv'', pending := []\<rparr>)"
    by (simp add: fopen_w_def example_host_def boot_def)
  have c: "malloc_main example_host" by (simp add: example_host_def)
  have d: "fwrite header (header_out example_host)
             (boot Map.empty\<lparr>sysctls := 3, files := [''out.csv'' \<mapsto> []],
                             stream := Some ''out.csv'', pending := []\<rparr>)
           = example_start"
    by (simp add: fwrite_def transmit_def boot_def example_start_def example_host_def)
  have e: "\<lparr>quit = 0, old_inb = 0, old_outb = 0, old_tv = stack_tv example_host\<rparr> = example_vars"
    by (simp add: example_vars_def example_host_def)
  from empty_interval_is_zero [OF a _ b c, of "''ifstat''" "[em0_tick 3000000000 5 1400000000 0]"]
  have "main example_host [''ifstat'', ''out.csv'', [], ''em0'']
          [em0_tick 3000000000 5 1400000000 0] (boot Map.empty)
        = loop example_host 0 [em0_tick 3000000000 5 1400000000 0]
            example_vars example_start"
    by (simp add: d e)
  then show ?thesis
    by (simp add: example_first_pass example_sleep_args usleep_def) (simp add: example_start_def)
qed

subsection \<open>Signals\<close>

lemma example_signal_run:
  "fst (main example_host [''ifstat'', ''out.csv'', ''1'', ''em0'']
          [interrupted_asleep SIGTERM (em0_tick 1000000 2000000 1400000000 0),
           em0_tick 1000100 2000300 1400000001 0] (boot Map.empty)) = Exited 0
   \<and> cycles (snd (main example_host [''ifstat'', ''out.csv'', ''1'', ''em0'']
          [interrupted_asleep SIGTERM (em0_tick 1000000 2000000 1400000000 0),
           em0_tick 1000100 2000300 1400000001 0] (boot Map.empty))) = 2
   \<and> files (snd (main example_host [''ifstat'', ''out.csv'', ''1'', ''em0'']
          [interrupted_asleep SIGTERM (em0_tick 1000000 2000000 1400000000 0),
           em0_tick 1000100 2000300 1400000001 0] (boot Map.empty))) ''out.csv''
     = Some (header @ ''2014.05.13 16:53:20,0,0'' @ [newline]
                    @ ''2014.05.13 16:53:21,100,300'' @ [newline])"
  by (simp add: example_main [OF digit_strings(2)] example_intervals example_sleep_args
      example_pass_1 example_pass_2 usleep_def finish_eq)
     (simp add: fclose_def fflush_def fwrite_def transmit_def example_start_def)

text \<open>
  Claim C5, as the claim states it, fails on this run: \<open>SIGTERM\<close> arrives during the
  first sleep, and after waking the program does not drain but makes a second pass
  (a second row is written) before it flushes, closes and exits with status 0.
\<close>

theorem signal_during_sleep_costs_one_more_pass:
  "fst (main example_host [''ifstat'', ''out.csv'', ''1'', ''em0'']
          [interrupted_asleep SIGTERM (em0_tick 1000000 2000000 1400000000 0),
           em0_tick 1000100 2000300 1400000001 0] (boot Map.empty)) = Exited 0
   \<and> cycles (snd (main example_host [''ifstat'', ''out.csv'', ''1'', ''em0'']
          [interrupted_asleep SIGTERM (em0_tick 1000000 2000000 1400000000 0),
           em0_tick 1000100 2000300 1400000001 0] (boot Map.empty))) = 2
   \<and> files (snd (main example_host [''ifstat'', ''out.csv'', ''1'', ''em0'']
          [interrupted_asleep SIGTERM (em0_tick 1000000 2000000 1400000000 0),
           em0_tick 1000100 2000300 1400000001 0] (boot Map.empty))) ''out.csv''
     = Some (header @ ''2014.05.13 16:53:20,0,0'' @ [newline]
                    @ ''2014.05.13 16:53:21,100,300'' @ [newline])"
  by (rule example_signal_run)

text \<open>
  Claim C5, amended. The handler only sets \<open>quit\<close>. The loop tests the flag once per
  pass, after the row is written and before the sleep: when the flag is set by then
  (by a signal during this pass or earlier) the loop ends without sleeping, the stream
  is flushed and closed and the exit status is 0. There is no test after waking: a
  signal delivered during the sleep is followed by one more pass, and the flush, the
  close and the exit with status 0 come when that pass is complete.
\<close>

theorem shutdown_on_signal:
  assumes "sample os t v w = Inr (v1, w1)"
  shows "signalhandler sig v = v\<lparr>quit := 1\<rparr>
       \<and> (quit v \<noteq> 0 \<or> sig_work t = Some sig
            \<longrightarrow> loop os iv (t # ts) v w = (Exited 0, fclose w1)
                \<and> sleeps w1 = sleeps w \<and> cycles w1 = Suc (cycles w))
       \<and> (quit v = 0 \<and> sig_work t = None \<and> sig_sleep t = Some sig \<and> sleep_arg iv = Inr us
            \<longrightarrow> loop os iv (t # t2 # ts) v w
                  = (case sample os t2 (v1\<lparr>quit := 1\<rparr>) (usleep us w1) of
                       Inl out \<Rightarrow> out
                     | Inr (v2, w2) \<Rightarrow> (Exited 0, fclose w2)))
       \<and> stream (fclose w') = None
       \<and> (stream w' = Some path \<longrightarrow> files (fclose w') path = Some (written path w'))"
proof -
  have q: "quit v1 = quit v" using assms by (rule sample_quit)
  have s: "sleeps w1 = sleeps w" using assms by (rule sample_sleeps)
  have c: "cycles w1 = Suc (cycles w)" using assms by (rule sample_cycles)
  have h: "signalhandler sig v = v\<lparr>quit := 1\<rparr>" by (simp add: signalhandler_def)
  have before: "loop os iv (t # ts) v w = (Exited 0, fclose w1)"
    if "quit v \<noteq> 0 \<or> sig_work t = Some sig"
    using that assms q by (auto simp: finish_eq deliver_quit split: option.splits)
  have after: "loop os iv (t # t2 # ts) v w
                  = (case sample os t2 (v1\<lparr>quit := 1\<rparr>) (usleep us w1) of
                       Inl out \<Rightarrow> out
                     | Inr (v2, w2) \<Rightarrow> (Exited 0, fclose w2))"
    if "quit v = 0" "sig_work t = None" "sig_sleep t = Some sig" "sleep_arg iv = Inr us"
  proof -
    have step: "loop os iv (t # t2 # ts) v w
                = loop os iv (t2 # ts) (v1\<lparr>quit := 1\<rparr>) (usleep us w1)"
      using that assms q by simp
    show ?thesis
    proof (cases "sample os t2 (v1\<lparr>quit := 1\<rparr>) (usleep us w1)")
      case (Inl out)
      with step show ?thesis by simp
    next
      case (Inr p)
      obtain v2 w2 where p: "p = (v2, w2)" by (cases p)
      with Inr have "quit v2 = 1" using sample_quit by fastforce
      with Inr p step show ?thesis
        by (simp add: finish_eq deliver_quit split: option.splits)
    qed
  qed
  have closed: "stream (fclose w') = None" by simp
  have flushed: "files (fclose w') path = Some (written path w')" if "stream w' = Some path"
    using that by (rule fclose_file)
  from h before s c after closed flushed show ?thesis by blast
qed

theorem shutdown_on_signal_witness:
  "fst (loop example_host 1
          [interrupted_working SIGINT (em0_tick 1000000 2000000 1400000000 0),
           em0_tick 1000100 2000300 1400000001 0] example_vars example_start) = Exited 0
   \<and> cycles (snd (loop example_host 1
          [interrupted_working SIGINT (em0_tick 1000000 2000000 1400000000 0),
           em0_tick 1000100 2000300 1400000001 0] example_vars example_start)) = 1
   \<and> fst (loop example_host 1
          [interrupted_asleep SIGTERM (em0_tick 1000000 2000000 1400000000 0),
           em0_tick 1000100 2000300 1400000001 0] example_vars example_start) = Exited 0
   \<and> cycles (snd (loop example_host 1
          [interrupted_asleep SIGTERM (em0_tick 1000000 2000000 1400000000 0),
           em0_tick 1000100 2000300 1400000001 0] example_vars example_start)) = 2"
proof -
  have work: "sample example_host
                (interrupted_working SIGINT (em0_tick 1000000 2000000 1400000000 0))
                example_vars example_start
              = Inr (\<lparr>quit = 0, old_inb = backup 1000000, old_outb = backup 2000000,
                       old_tv = \<lparr>tv_sec = 1400000000, tv_usec = 0\<rparr>\<rparr>,
                     (fwrite (''2014.05.13 16:53:20,0,0'' @ [newline]) 0
                        (example_start\<lparr>sysctls := Suc (sysctls example_start)\<rparr>))
                       \<lparr>cycles := Suc (cycles example_start)\<rparr>)"
    by (simp add: example_pass_1)
  have sleep: "sample example_host
                (interrupted_asleep SIGTERM (em0_tick 1000000 2000000 1400000000 0))
                example_vars example_start
              = Inr (\<lparr>quit = 0, old_inb = backup 1000000, old_outb = backup 2000000,
                       old_tv = \<lparr>tv_sec = 1400000000, tv_usec = 0\<rparr>\<rparr>,
                     (fwrite (''2014.05.13 16:53:20,0,0'' @ [newline]) 0
                        (example_start\<lparr>sysctls := Suc (sysctls example_start)\<rparr>))
                       \<lparr>cycles := Suc (cycles example_start)\<rparr>)"
    by (simp add: example_pass_1)
  have c0: "cycles example_start = 0" "quit example_vars = 0"
    by (simp_all add: example_start_def example_vars_def)
  from shutdown_on_signal [OF work, where sig = SIGINT and iv = 1
        and ts = "[em0_tick 1000100 2000300 1400000001 0]"]
  have a: "fst (loop example_host 1
          [interrupted_working SIGINT (em0_tick 1000000 2000000 1400000000 0),
           em0_tick 1000100 2000300 1400000001 0] example_vars example_start) = Exited 0
   \<and> cycles (snd (loop example_host 1
          [interrupted_working SIGINT (em0_tick 1000000 2000000 1400000000 0),
           em0_tick 1000100 2000300 1400000001 0] example_vars example_start)) = 1"
    by (simp add: c0)
  from shutdown_on_signal [OF sleep, where sig = SIGTERM and iv = 1 and us = 1000000
        and ?t2.0 = "em0_tick 1000100 2000300 1400000001 0" and ts = "[]"]
  have b: "fst (loop example_host 1
          [interrupted_asleep SIGTERM (em0_tick 1000000 2000000 1400000000 0),
           em0_tick 1000100 2000300 1400000001 0] example_vars example_start) = Exited 0
   \<and> cycles (snd (loop example_host 1
          [interrupted_asleep SIGTERM (em0_tick 1000000 2000000 1400000000 0),
           em0_tick 1000100 2000300 1400000001 0] example_vars example_start)) = 2"
    by (simp add: c0 example_sleep_args example_pass_2 usleep_def)
  from a b show ?thesis by simp
qed

subsection \<open>Reading back what \<open>printf\<close> and \<open>strftime\<close> wrote\<close>

lemma isdigit_digit_char: "d < 10 \<Longrightarrow> isdigit (digit_char d)"
  by (simp add: isdigit_def digit_char_def)

lemma value_digit_char: "d < 10 \<Longrightarrow> of_char (digit_char d) - 48 = d"
  by (simp add: digit_char_def)

lemma digits_small: "n < 10 \<Longrightarrow> digits n = [digit_char n]"
  by (subst digits.simps) simp

lemma digits_step: "10 \<le> n \<Longrightarrow> digits n = digits (n div 10) @ [digit_char (n mod 10)]"
  by (subst digits.simps) simp

lemma digits_nonempty: "digits n \<noteq> []"
  by (subst digits.simps) simp

lemma digits_isdigit: "list_all isdigit (digits n)"
proof (induction n rule: digits.induct)
  case (1 n)
  show ?case
  proof (cases "n < 10")
    case True
    then show ?thesis by (simp add: digits_small isdigit_digit_char)
  next
    case False
    with 1 show ?thesis by (simp add: digits_step isdigit_digit_char)
  qed
qed

lemma digits_value: "foldl (\<lambda>a c. 10 * a + (of_char c - 48)) 0 (digits n) = n"
proof (induction n rule: digits.induct)
  case (1 n)
  show ?case
  proof (cases "n < 10")
    case True
    then show ?thesis by (simp add: digits_small value_digit_char)
  next
    case False
    with 1 show ?thesis by (simp add: digits_step value_digit_char)
  qed
qed

lemma parse_nat_digits: "parse_nat (digits n) = Some n"
  by (simp add: parse_nat_def digits_nonempty digits_isdigit digits_value)

lemma set_digits: "c \<in> set (digits n) \<Longrightarrow> isdigit c"
  using digits_isdigit [of n] by (simp add: list_all_iff)

lemma digits_no_minus: "hd (digits n) \<noteq> CHR ''-''"
proof -
  have "isdigit (hd (digits n))"
    using digits_isdigit [of n] digits_nonempty [of n] by (cases "digits n") simp_all
  then show ?thesis by (auto simp: isdigit_def)
qed

lemma parse_int_show_int: "parse_int (show_int i) = Some i"
  by (simp add: parse_int_def show_int_def parse_nat_digits digits_no_minus digits_nonempty)

lemma length_digits_le: "n < 10 ^ k \<Longrightarrow> 0 < k \<Longrightarrow> length (digits n) \<le> k"
proof (induction n arbitrary: k rule: digits.induct)
  case (1 n)
  show ?case
  proof (cases "n < 10")
    case True
    with 1 show ?thesis by (simp add: digits_small)
  next
    case False
    with "1.prems" obtain j where k: "k = Suc j" by (cases k) auto
    with False "1.prems" have j: "0 < j" by (cases j) auto
    from k "1.prems" have "n div 10 < 10 ^ j" by (simp add: less_mult_imp_div_less mult.commute)
    with "1.IH" [OF False this j] False k show ?thesis by (simp add: digits_step)
  qed
qed

lemma length_show_int: "- (2 ^ 31) \<le> i \<Longrightarrow> i < 2 ^ 31 \<Longrightarrow> length (show_int i) \<le> 11"
proof -
  assume a: "- (2 ^ 31) \<le> i" "i < 2 ^ 31"
  have "nat \<bar>i\<bar> < 10 ^ 10" using a by simp
  then have "length (digits (nat \<bar>i\<bar>)) \<le> 10" by (rule length_digits_le) simp
  then show ?thesis by (auto simp: show_int_def abs_if)
qed

lemma length_show_sint: "length (show_int (sint (a :: uint32_t))) \<le> 11"
proof -
  have "- (2 ^ 31) \<le> sint a" "sint a < 2 ^ 31"
    using sint_ge [of a] sint_lt [of a] by simp_all
  then show ?thesis by (rule length_show_int)
qed

lemma show_int_chars: "CHR '','' \<notin> set (show_int i)"
  by (auto simp: show_int_def isdigit_def dest!: set_digits)

lemma split_at_field:
  "sep \<notin> set a \<Longrightarrow> split_at sep acc (a @ sep # rest) = (acc @ a) # split_at sep [] rest"
  by (induction a arbitrary: acc) auto

lemma split_at_last: "sep \<notin> set a \<Longrightarrow> split_at sep acc a = [acc @ a]"
  by (induction a arbitrary: acc) auto

lemma digits_4:
  assumes "1000 \<le> n" and "n \<le> 9999"
  shows "digits n = [digit_char (n div 1000), digit_char (n div 100 mod 10),
                     digit_char (n div 10 mod 10), digit_char (n mod 10)]"
proof -
  have r: "10 \<le> n" "10 \<le> n div 10" "10 \<le> n div 100" "n div 1000 < 10"
    using assms by simp_all
  have e: "n div 10 div 10 = n div 100" "n div 100 div 10 = n div 1000"
    by (simp_all add: div_mult2_eq [symmetric])
  have "digits n = digits (n div 10) @ [digit_char (n mod 10)]"
    using r(1) by (rule digits_step)
  also have "digits (n div 10) = digits (n div 100) @ [digit_char (n div 10 mod 10)]"
    using digits_step [OF r(2)] by (simp add: e)
  also have "digits (n div 100) = digits (n div 1000) @ [digit_char (n div 100 mod 10)]"
    using digits_step [OF r(3)] by (simp add: e)
  also have "digits (n div 1000) = [digit_char (n div 1000)]"
    using r(4) by (rule digits_small)
  finally show ?thesis by simp
qed

lemma pad2_2:
  assumes "0 \<le> n" and "n \<le> 99"
  shows "pad2 n = [digit_char (nat n div 10), digit_char (nat n mod 10)]"
proof (cases "n < 10")
  case True
  with assms have "nat n < 10" by simp
  then have "digits (nat n) = [digit_char (nat n)]" by (rule digits_small)
  with True assms show ?thesis
    by (simp add: pad2_def show_int_def digit_char_numerals)
next
  case False
  with assms have "10 \<le> nat n" "nat n div 10 < 10" by simp_all
  then have "digits (nat n) = [digit_char (nat n div 10), digit_char (nat n mod 10)]"
    using digits_step [of "nat n"] digits_small [of "nat n div 10"] by simp
  with False assms show ?thesis by (simp add: pad2_def show_int_def)
qed

lemma tens_digit: "0 \<le> n \<Longrightarrow> n \<le> 99 \<Longrightarrow> isdigit (digit_char (nat n div 10))"
  by (rule isdigit_digit_char) arith

lemma strftime_stamp:
  assumes "tm_ok time"
  shows "\<exists>ts. strftime time = Inr ts \<and> is_stamp ts"
proof -
  let ?y = "nat (tm_year time + 1900)"
  have yr: "1000 \<le> ?y" "?y \<le> 9999" "\<not> tm_year time + 1900 < 0"
    using assms unfolding tm_ok_def by arith+
  have y: "show_int (tm_year time + 1900)
           = [digit_char (?y div 1000), digit_char (?y div 100 mod 10),
              digit_char (?y div 10 mod 10), digit_char (?y mod 10)]"
    using digits_4 [OF yr(1,2)] yr(3) by (simp only: show_int_def if_False)
  have p: "pad2 (tm_mon time + 1)
           = [digit_char (nat (tm_mon time + 1) div 10), digit_char (nat (tm_mon time + 1) mod 10)]"
    "pad2 (tm_mday time)
     = [digit_char (nat (tm_mday time) div 10), digit_char (nat (tm_mday time) mod 10)]"
    "pad2 (tm_hour time)
     = [digit_char (nat (tm_hour time) div 10), digit_char (nat (tm_hour time) mod 10)]"
    "pad2 (tm_min time)
     = [digit_char (nat (tm_min time) div 10), digit_char (nat (tm_min time) mod 10)]"
    "pad2 (tm_sec time)
     = [digit_char (nat (tm_sec time) div 10), digit_char (nat (tm_sec time) mod 10)]"
    using assms by (simp_all add: tm_ok_def pad2_2)
  have d: "isdigit (digit_char (k mod 10))" for k by (simp add: isdigit_digit_char)
  have y1: "isdigit (digit_char (?y div 1000))"
    using yr by (intro isdigit_digit_char) simp
  have q: "isdigit (digit_char (nat (tm_mon time + 1) div 10))"
    "isdigit (digit_char (nat (tm_mday time) div 10))"
    "isdigit (digit_char (nat (tm_hour time) div 10))"
    "isdigit (digit_char (nat (tm_min time) div 10))"
    "isdigit (digit_char (nat (tm_sec time) div 10))"
    using assms by (simp_all add: tm_ok_def tens_digit)
  show ?thesis
    by (simp add: strftime_def y p is_stamp_def d y1 q)
qed

lemma list_all2_right:
  "list_all2 P xs ys \<Longrightarrow> (\<And>x y. x \<in> set xs \<Longrightarrow> P x y \<Longrightarrow> Q y) \<Longrightarrow> list_all Q ys"
  by (induction rule: list_all2_induct) auto

lemma stamp_chars:
  assumes "is_stamp ts"
  shows "CHR '','' \<notin> set ts" and "length ts = 19"
proof -
  have "list_all (\<lambda>c. c \<noteq> CHR '','') ts"
    using assms unfolding is_stamp_def
    by (rule list_all2_right) (auto simp: isdigit_def split: if_splits)
  then show "CHR '','' \<notin> set ts" by (auto simp: list_all_iff)
  from assms have "length ''dddd.dd.dd dd:dd:dd'' = length ts"
    unfolding is_stamp_def by (rule list_all2_lengthD)
  then show "length ts = 19" by simp
qed

lemma csv_line_whole:
  assumes "is_stamp ts"
  shows "csv_line ts a b = ts @ '','' @ show_int (sint a) @ '','' @ show_int (sint b) @ [newline]"
  using stamp_chars(2) [OF assms] length_show_sint [of a] length_show_sint [of b]
  by (simp add: csv_line_def)

lemma parse_csv_line:
  assumes "is_stamp ts"
  shows "parse_line (csv_line ts a b) = Some (ts, sint a, sint b)"
proof -
  have "butlast (ts @ '','' @ show_int (sint a) @ '','' @ show_int (sint b) @ [newline])
        = ts @ CHR '','' # (show_int (sint a) @ CHR '','' # show_int (sint b))"
    by (simp add: butlast_append)
  moreover have "split_at CHR '','' []
                   (ts @ CHR '','' # (show_int (sint a) @ CHR '','' # show_int (sint b)))
        = [ts, show_int (sint a), show_int (sint b)]"
    using stamp_chars(1) [OF assms]
    by (simp add: split_at_field split_at_last show_int_chars)
  ultimately show ?thesis
    using assms by (simp add: parse_line_def csv_line_whole parse_int_show_int)
qed

subsection \<open>The output file\<close>

lemma written_fields [simp]:
  "written path (w\<lparr>sysctls := n\<rparr>) = written path w"
  "written path (w\<lparr>cycles := c\<rparr>) = written path w"
  "written path (w\<lparr>sleeps := s\<rparr>) = written path w"
  "written path (w\<lparr>errout := e\<rparr>) = written path w"
  by (simp_all add: written_def)

lemma transmit_keeps: "files w path \<noteq> None \<Longrightarrow> files (transmit n w) path \<noteq> None"
  by (simp add: transmit_def split: option.splits)

lemma fclose_keeps: "files w path \<noteq> None \<Longrightarrow> files (fclose w) path \<noteq> None"
  by (simp add: fclose_def fflush_def transmit_keeps)

lemma fwrite_keeps: "files w path \<noteq> None \<Longrightarrow> files (fwrite text out w) path \<noteq> None"
  by (simp add: fwrite_def transmit_keeps)

lemma error_keeps:
  "files w path \<noteq> None \<Longrightarrow> files (snd (error os func line msg hasmsg w)) path \<noteq> None"
  by (simp add: error_eq fclose_keeps)

lemma error_result_keeps:
  "error os func line msg hasmsg w = (st, w1) \<Longrightarrow> files w path \<noteq> None \<Longrightarrow> files w1 path \<noteq> None"
  using error_keeps [of w path os func line msg hasmsg] by simp

lemma closed_file:
  "stream w = None \<Longrightarrow> files w path \<noteq> None \<Longrightarrow> files w path = Some (written path w)"
  by (auto simp: written_def)

lemma csv_ok_append:
  assumes "csv_ok c n" and "parse_line r \<noteq> None"
  shows "csv_ok (c @ r) (Suc n)"
proof -
  from assms(1) obtain rows where rows: "c = header @ concat rows" "length rows = n"
    "list_all (\<lambda>r. parse_line r \<noteq> None) rows"
    by (auto simp: csv_ok_def)
  with assms(2) have "c @ r = header @ concat (rows @ [r])" "length (rows @ [r]) = Suc n"
    "list_all (\<lambda>r. parse_line r \<noteq> None) (rows @ [r])"
    by simp_all
  then show ?thesis unfolding csv_ok_def by blast
qed

text \<open>The state of the output while the loop runs, and after an exit.\<close>

lemma sample_csv:
  assumes "tick_ok t" and "stream w = Some f" and "files w f \<noteq> None"
    and "csv_ok (written f w) (cycles w)" and "sample os t v w = Inr (v1, w1)"
  shows "stream w1 = Some f \<and> files w1 f \<noteq> None \<and> csv_ok (written f w1) (cycles w1)"
proof -
  from sample_Inr [OF assms(5)] obtain data tv a b time ts where
    t: "localtm t = Some time" "strftime time = Inr ts"
    and w1: "w1 = (fwrite (csv_line ts a b) (written_out t) (w\<lparr>sysctls := Suc (sysctls w)\<rparr>))
                    \<lparr>cycles := Suc (cycles w)\<rparr>"
    by blast
  from assms(1) t(1) have "tm_ok time" by (simp add: tick_ok_def)
  with t(2) have "is_stamp ts" using strftime_stamp by fastforce
  then have "parse_line (csv_line ts a b) \<noteq> None" by (simp add: parse_csv_line)
  with assms(4) have "csv_ok (written f w @ csv_line ts a b) (Suc (cycles w))"
    by (rule csv_ok_append)
  moreover have "written f w1 = written f w @ csv_line ts a b"
    using assms(2) by (simp add: w1 written_fwrite)
  moreover have "files w1 f \<noteq> None" using assms(3) by (simp add: w1 fwrite_keeps)
  ultimately show ?thesis using assms(2) by (simp add: w1)
qed

lemma sample_fails:
  assumes "stream w = Some f" and "files w f \<noteq> None" and "sample os t v w = Inl (st, w1)"
  shows "files w1 f \<noteq> None \<and> written f w1 = written f w \<and> cycles w1 = cycles w
         \<and> (st = Exited 1 \<and> stream w1 = None \<or> (\<exists>x. st = Undefined x) \<and> stream w1 = Some f)"
proof -
  have "files w1 f \<noteq> None"
    using assms(2,3)
    by (auto simp: sample_def getifdata_def Let_def
        split: option.splits sum.splits prod.splits dest!: error_result_keeps [where path = f])
  with sample_Inl [OF assms(3), of f] assms(1) show ?thesis by auto
qed

lemma loop_csv:
  assumes "list_all tick_ok ticks" and "stream w = Some f" and "files w f \<noteq> None"
    and "csv_ok (written f w) (cycles w)" and "loop os iv ticks v w = (st, w')"
  shows "files w' f \<noteq> None \<and> csv_ok (written f w') (cycles w')
         \<and> ((\<exists>code. st = Exited code) \<longrightarrow> stream w' = None)"
  using assms
proof (induction ticks arbitrary: v w)
  case Nil
  then show ?case by auto
next
  case (Cons t ts)
  from Cons.prems(1) have ok: "tick_ok t" "list_all tick_ok ts" by simp_all
  show ?case
  proof (cases "sample os t v w")
    case (Inl out)
    with Cons.prems(5) have "sample os t v w = Inl (st, w')" by simp
    from sample_fails [OF Cons.prems(2,3) this] Cons.prems(4) show ?thesis by auto
  next
    case (Inr p)
    obtain v1 w1 where p: "p = (v1, w1)" by (cases p)
    with Inr have s: "sample os t v w = Inr (v1, w1)" by simp
    from sample_csv [OF ok(1) Cons.prems(2,3,4) s]
    have w1: "stream w1 = Some f" "files w1 f \<noteq> None" "csv_ok (written f w1) (cycles w1)"
      by simp_all
    show ?thesis
    proof (cases "quit (deliver (sig_work t) v1) = 0")
      case False
      with s Cons.prems(5) have "st = Exited 0" "w' = fclose w1" by (simp_all add: finish_eq)
      with w1 show ?thesis by (simp add: fclose_keeps)
    next
      case True
      show ?thesis
      proof (cases "sleep_arg iv")
        case (Inl x)
        with True s Cons.prems(5) have "w' = w1" "st = Undefined x" by simp_all
        with w1 show ?thesis by simp
      next
        case (Inr us)
        with True s Cons.prems(5)
        have rec: "loop os iv ts (deliver (sig_sleep t) (deliver (sig_work t) v1)) (usleep us w1)
                   = (st, w')" by simp
        from w1 have "stream (usleep us w1) = Some f" "files (usleep us w1) f \<noteq> None"
          "csv_ok (written f (usleep us w1)) (cycles (usleep us w1))"
          by (simp_all add: usleep_def)
        from Cons.IH [OF ok(2) this rec] show ?thesis .
      qed
    qed
  qed
qed

text \<open>
  Claim C4, as the claim states it, fails on this run: one pass of the loop is complete
  and the process is running, but the header and the row are still in the buffer of
  the stream and the file is empty. The program flushes the stream only when it ends.
\<close>

theorem rows_wait_in_the_buffer:
  "fst (main example_host [''ifstat'', ''out.csv'', ''1'', ''em0'']
          [em0_tick 1000000 2000000 1400000000 0] (boot Map.empty)) = Running
   \<and> cycles (snd (main example_host [''ifstat'', ''out.csv'', ''1'', ''em0'']
          [em0_tick 1000000 2000000 1400000000 0] (boot Map.empty))) = 1
   \<and> files (snd (main example_host [''ifstat'', ''out.csv'', ''1'', ''em0'']
          [em0_tick 1000000 2000000 1400000000 0] (boot Map.empty))) ''out.csv'' = Some []"
  by (simp add: example_main [OF digit_strings(2)] example_intervals example_sleep_args
      example_pass_1 usleep_def)
     (simp add: fwrite_def transmit_def example_start_def)

text \<open>
  Claim C4, amended. Whatever the output file held before, what the program has written
  to its stream at any point of a run (the contents of the file followed by the bytes
  still pending) is the header line followed by one data row per completed pass, and
  once the process has exited the file holds exactly that. Every row is accepted by
  the reader of the format. A row is the time stamp \<open>YYYY.MM.DD HH:MM:SS\<close>, a comma,
  the input rate, a comma, the output rate and a newline, and reading it back gives
  the time stamp and the two integers that were printed. The calendar times that
  \<open>localtime\<close> returns are taken to be in range, with a year of four digits.
\<close>

theorem csv_stream_contents:
  assumes "length argv = 4" and "list_all isdigit (argv ! 2)"
    and "getifrow os (argv ! 3) (boot fs) = Inr (row, w1)" and "1 \<le> row"
    and "writable os (argv ! 1)" and "list_all tick_ok ticks"
    and "main os argv ticks (boot fs) = (st, w')"
  shows "(\<exists>rows. written (argv ! 1) w' = header @ concat rows \<and> length rows = cycles w'
                \<and> list_all (\<lambda>r. parse_line r \<noteq> None) rows)
       \<and> (st = Exited code \<longrightarrow> files w' (argv ! 1) = Some (written (argv ! 1) w'))
       \<and> (tm_ok time
            \<longrightarrow> (\<exists>ts. strftime time = Inr ts \<and> is_stamp ts
                     \<and> csv_line ts a b
                         = ts @ '','' @ show_int (sint a) @ '','' @ show_int (sint b) @ [newline]
                     \<and> parse_line (csv_line ts a b) = Some (ts, sint a, sint b)))"
proof -
  let ?f = "argv ! 1"
  from assms(3) obtain k where w1: "w1 = boot fs\<lparr>sysctls := k\<rparr>" using getifrow_frame by blast
  let ?w2 = "w1\<lparr>files := (files w1)(?f \<mapsto> []), stream := Some ?f, pending := []\<rparr>"
  let ?w3 = "fwrite header (header_out os) ?w2"
  have o: "fopen_w os ?f w1 = Some ?w2" using assms(5) by (simp add: fopen_w_def)
  have "written ?f ?w2 = []" by (simp add: written_def)
  then have f3: "stream ?w3 = Some ?f" "files ?w3 ?f \<noteq> None" "written ?f ?w3 = header"
    "cycles ?w3 = 0"
    by (simp_all add: written_fwrite fwrite_keeps) (simp add: w1 boot_def)
  have h0: "csv_ok header 0" by (simp add: csv_ok_def)
  have inv: "files w' ?f \<noteq> None \<and> csv_ok (written ?f w') (cycles w')
             \<and> ((\<exists>code. st = Exited code) \<longrightarrow> stream w' = None)"
  proof (cases "malloc_main os")
    case True
    with assms(1,2,3,4,7) o
    have "loop os (to_int32 (strtol (argv ! 2))) ticks
            \<lparr>quit = 0, old_inb = 0, old_outb = 0, old_tv = stack_tv os\<rparr> ?w3 = (st, w')"
      by (simp add: main_def Let_def)
    from loop_csv [OF assms(6) f3(1,2) _ this] h0 f3(3,4) show ?thesis by simp
  next
    case False
    with assms(1,2,3,4,7) o have e: "error os ''main'' 188 [] False ?w3 = (st, w')"
      by (simp add: main_def Let_def)
    from error_result [OF e, of ?f] error_keeps [OF f3(2), of os "''main''" 188 "[]" False] e
      f3(3,4) h0
    show ?thesis by simp
  qed
  then have first: "\<exists>rows. written ?f w' = header @ concat rows
                \<and> length rows = cycles w' \<and> list_all (\<lambda>r. parse_line r \<noteq> None) rows"
    by (auto simp: csv_ok_def)
  have exited: "files w' ?f = Some (written ?f w')" if "st = Exited code"
    using inv that closed_file [of w' ?f] by blast
  have second: "\<exists>ts. strftime time = Inr ts \<and> is_stamp ts
                     \<and> csv_line ts a b
                         = ts @ '','' @ show_int (sint a) @ '','' @ show_int (sint b) @ [newline]
                     \<and> parse_line (csv_line ts a b) = Some (ts, sint a, sint b)"
    if "tm_ok time"
    using strftime_stamp [OF that] csv_line_whole parse_csv_line by blast
  from first exited second show ?thesis by blast
qed


theorem csv_stream_contents_witness:
  "(\<exists>rows. written ''out.csv''
             (snd (main example_host [''ifstat'', ''out.csv'', ''1'', ''em0'']
                [interrupted_asleep SIGTERM (em0_tick 1000000 2000000 1400000000 0),
                 em0_tick 1000100 2000300 1400000001 0] (boot Map.empty)))
           = header @ concat rows
         \<and> length rows = 2 \<and> list_all (\<lambda>r. parse_line r \<noteq> None) rows)
   \<and> files (snd (main example_host [''ifstat'', ''out.csv'', ''1'', ''em0'']
                [interrupted_asleep SIGTERM (em0_tick 1000000 2000000 1400000000 0),
                 em0_tick 1000100 2000300 1400000001 0] (boot Map.empty))) ''out.csv''
     = Some (written ''out.csv''
               (snd (main example_host [''ifstat'', ''out.csv'', ''1'', ''em0'']
                  [interrupted_asleep SIGTERM (em0_tick 1000000 2000000 1400000000 0),
                   em0_tick 1000100 2000300 1400000001 0] (boot Map.empty))))
   \<and> parse_line (''2014.05.13 16:53:21,100,300'' @ [newline])
     = Some (''2014.05.13 16:53:21'', 100, 300)"
proof -
  let ?argv = "[''ifstat'', ''out.csv'', ''1'', ''em0'']"
  let ?ticks = "[interrupted_asleep SIGTERM (em0_tick 1000000 2000000 1400000000 0),
                 em0_tick 1000100 2000300 1400000001 0]"
  let ?time = "\<lparr>tm_sec = 21, tm_min = 53, tm_hour = 16, tm_mday = 13, tm_mon = 4,
                 tm_year = 114\<rparr>"
  have a: "length ?argv = 4" "list_all isdigit (?argv ! 2)" by (simp_all add: isdigit_def)
  have b: "getifrow example_host (?argv ! 3) (boot Map.empty)
           = Inr (2, boot Map.empty\<lparr>sysctls := 3\<rparr>)"
    using example_lookup [of Map.empty] by simp
  have c: "writable example_host (?argv ! 1)" by (simp add: example_host_def)
  have d: "list_all tick_ok ?ticks"
    by (simp add: tick_ok_def tm_ok_def interrupted_asleep_def)
  have e: "main example_host ?argv ?ticks (boot Map.empty)
           = (Exited 0, snd (main example_host ?argv ?ticks (boot Map.empty)))"
    using example_signal_run by (simp add: prod_eq_iff)
  have f: "tm_ok ?time" by (simp add: tm_ok_def)
  have g: "(1::int) \<le> 2" by simp
  let ?W = "snd (main example_host ?argv ?ticks (boot Map.empty))"
  note th = csv_stream_contents [OF a b g c d e, of 0 ?time 100 300]
  from th have "\<exists>rows. written (?argv ! 1) ?W = header @ concat rows \<and> length rows = cycles ?W
                  \<and> list_all (\<lambda>r. parse_line r \<noteq> None) rows"
    by (rule conjunct1)
  moreover have "cycles ?W = 2" using example_signal_run by simp
  ultimately have first: "\<exists>rows. written ''out.csv'' ?W = header @ concat rows \<and> length rows = 2
                  \<and> list_all (\<lambda>r. parse_line r \<noteq> None) rows"
    by simp
  from th have second: "files ?W ''out.csv'' = Some (written ''out.csv'' ?W)"
    by simp
  from th f obtain ts where "strftime ?time = Inr ts"
    "parse_line (csv_line ts 100 300) = Some (ts, sint (100 :: uint32_t), sint (300 :: uint32_t))"
    by blast
  then have "ts = ''2014.05.13 16:53:21''"
    "parse_line (csv_line ts 100 300) = Some (ts, 100, 300)"
    by (simp_all add: example_text)
  then have third: "parse_line (''2014.05.13 16:53:21,100,300'' @ [newline])
     = Some (''2014.05.13 16:53:21'', 100, 300)"
    using example_text(5) by simp
  from first second third show ?thesis by blast
qed


subsection \<open>Runs on which the code departs from the specification\<close>

text \<open>
  Claim C1 (the code departs from it). The loop has no case for the first pass: it
  divides the low 32 bits of the counter by the time elapsed since whatever the
  uninitialised \<open>old_tv\<close> holds. With zeroes there, a counter of 3000000000 bytes read
  at 1400000000 seconds gives the first row the input rate 2, not 0.
\<close>

theorem first_row_divides_by_uninitialised_interval:
  "written ''out.csv''
     (snd (main example_host [''ifstat'', ''out.csv'', ''1'', ''em0'']
             [em0_tick 3000000000 5 1400000000 0] (boot Map.empty)))
   = header @ ''2014.05.13 16:53:20,2,0'' @ [newline]"
  by (simp add: example_main [OF digit_strings(2)] example_intervals example_sleep_args
      example_first_pass usleep_def)
     (simp add: written_def fwrite_def transmit_def example_start_def)

text \<open>
  Claim C2 (the code departs from it). Nothing tests the elapsed time before the
  division. Two readings with the same time of day make the divisor 0.0: the quotient
  of the delta 100 is infinite and its conversion to \<open>uint32_t\<close> is undefined, where
  the claim asks for the rate 0 and no division by zero.
\<close>

theorem equal_clock_readings_divide_by_zero:
  "fst (main example_host [''ifstat'', ''out.csv'', ''0'', ''em0'']
          [em0_tick 3000000000 5 1400000000 0, em0_tick 3000000100 5 1400000000 0]
          (boot Map.empty))
   = Undefined NonFiniteQuotient"
proof -
  have "timersub \<lparr>tv_sec = 1400000000, tv_usec = 0\<rparr> \<lparr>tv_sec = 1400000000, tv_usec = 0\<rparr>
        = Inr \<lparr>tv_sec = 0, tv_usec = 0\<rparr>"
    by (simp add: timersub_def in_long_def)
  moreover have "throughput 3000000100 (backup 3000000000) = 100"
    by (simp add: throughput_def backup_def)
  ultimately have "sample example_host (em0_tick 3000000100 5 1400000000 0)
          \<lparr>quit = 0, old_inb = backup 3000000000, old_outb = backup 5,
            old_tv = \<lparr>tv_sec = 1400000000, tv_usec = 0\<rparr>\<rparr> w
        = Inl (Undefined NonFiniteQuotient, w\<lparr>sysctls := Suc (sysctls w)\<rparr>)" for w
    by (simp add: sample_def example_arithmetic)
  then show ?thesis
    by (simp add: example_main [OF digit_strings(1)] example_intervals example_sleep_args
        example_first_pass)
qed

text \<open>
  Claim C8 (the code departs from it). The argument of \<open>usleep\<close> is computed in
  \<open>int\<close>. For an interval of 5000 seconds the product 5000 * 1000 * 1000 is out of
  range: after the first row the program does not sleep 5000 seconds, its behaviour
  is undefined.
\<close>

theorem long_interval_overflows_sleep_argument:
  "sleep_arg (to_int32 (strtol ''5000'')) = Inl SignedOverflow
   \<and> fst (main example_host [''ifstat'', ''out.csv'', ''5000'', ''em0'']
            [em0_tick 3000000000 5 1400000000 0] (boot Map.empty))
     = Undefined SignedOverflow"
  by (simp add: example_main [OF digit_strings(3)] example_intervals example_sleep_args
      example_first_pass)

end
